theory Spec2Isabelle
  imports Complex_Main "HOL-Library.Log_Nat"
begin

section \<open>JavaScript numbers\<close>

text \<open>
  Every number of \<^verbatim>\<open>KeycapModel.tsx\<close> is an IEEE 754 binary64 value, and each arithmetic
  operator rounds its exact result to the nearest such value, ties to even. A finite
  number is modelled by the rational it denotes; \<open>round_fmt p emin\<close> rounds a rational to
  the format with \<open>p\<close> significand bits and least normal exponent \<open>emin\<close> (subnormals
  included). The two zeros are identified, and the largest exponent is not bounded: the
  model covers runs on which no operation overflows to \<open>Infinity\<close> or yields \<open>NaN\<close>.
\<close>

type_synonym number = rat

definition roundTiesToEven :: "rat \<Rightarrow> int" where
  "roundTiesToEven q =
     (let f = \<lfloor>q\<rfloor>; r = q - of_int f
      in if r < 1 / 2 then f
         else if 1 / 2 < r then f + 1
         else if even f then f else f + 1)"

definition binade :: "rat \<Rightarrow> int" where
  \<comment> \<open>the exponent \<open>e\<close> with \<open>2 powi e \<le> \<bar>x\<bar> < 2 powi (e + 1)\<close>, for \<open>x \<noteq> 0\<close>\<close>
  "binade x =
     (let (p, q) = quotient_of \<bar>x\<bar>; e = bitlen p - bitlen q
      in if 2 powi e \<le> \<bar>x\<bar> then e else e - 1)"

definition ulp_fmt :: "nat \<Rightarrow> int \<Rightarrow> rat \<Rightarrow> rat" where
  "ulp_fmt p emin x = 2 powi (max (binade x) emin - (int p - 1))"

definition round_fmt :: "nat \<Rightarrow> int \<Rightarrow> rat \<Rightarrow> rat" where
  "round_fmt p emin x = of_int (roundTiesToEven (x / ulp_fmt p emin x)) * ulp_fmt p emin x"

definition fl :: "rat \<Rightarrow> number" where
  \<comment> \<open>binary64: the result of every JavaScript arithmetic operator and numeric literal\<close>
  "fl = round_fmt 53 (- 1022)"

definition fround :: "rat \<Rightarrow> number" where
  \<comment> \<open>binary32: a store into a \<^verbatim>\<open>Float32Array\<close>\<close>
  "fround = round_fmt 24 (- 126)"

definition is_double :: "number \<Rightarrow> bool" where
  "is_double v \<longleftrightarrow> fl v = v"

definition js_add :: "number \<Rightarrow> number \<Rightarrow> number" where
  "js_add a b = fl (a + b)"

definition js_sub :: "number \<Rightarrow> number \<Rightarrow> number" where
  "js_sub a b = fl (a - b)"

definition js_mul :: "number \<Rightarrow> number \<Rightarrow> number" where
  "js_mul a b = fl (a * b)"

definition js_div :: "number \<Rightarrow> number \<Rightarrow> number" where
  \<comment> \<open>only used with a divisor that is not zero\<close>
  "js_div a b = fl (a / b)"

text \<open>The decimal literals of the source, each read as the nearest binary64 value.\<close>

definition lit_0_04 :: number where "lit_0_04 = fl (4 / 100)"
definition lit_0_65 :: number where "lit_0_65 = fl (65 / 100)"
definition lit_0_02 :: number where "lit_0_02 = fl (2 / 100)"
definition lit_0_15 :: number where "lit_0_15 = fl (15 / 100)"
definition lit_0_005 :: number where "lit_0_005 = fl (5 / 1000)"
definition lit_0_03 :: number where "lit_0_03 = fl (3 / 100)"
definition lit_0_9 :: number where "lit_0_9 = fl (9 / 10)"
definition lit_0_6 :: number where "lit_0_6 = fl (6 / 10)"
definition lit_0_12 :: number where "lit_0_12 = fl (12 / 100)"
definition lit_0_1 :: number where "lit_0_1 = fl (1 / 10)"
definition lit_0_4 :: number where "lit_0_4 = fl (4 / 10)"
definition lit_0_2 :: number where "lit_0_2 = fl (2 / 10)"
definition lit_0_5 :: number where "lit_0_5 = fl (5 / 10)"
definition lit_0_3 :: number where "lit_0_3 = fl (3 / 10)"
definition lit_0_7 :: number where "lit_0_7 = fl (7 / 10)"
definition lit_0_8 :: number where "lit_0_8 = fl (8 / 10)"
definition lit_0_001 :: number where "lit_0_001 = fl (1 / 1000)"
definition lit_0_002 :: number where "lit_0_002 = fl (2 / 1000)"
definition lit_0_008 :: number where "lit_0_008 = fl (8 / 1000)"

section \<open>Scene objects\<close>

text \<open>
  A \<^verbatim>\<open>Vector3\<close> or \<^verbatim>\<open>Euler\<close> of the scene graph has three number components; an
  \<^verbatim>\<open>Object3D\<close> has a position, a rotation and a scale. The shadow plane is a mesh
  whose material has an opacity.
\<close>

record vec3 =
  vec_x :: number
  vec_y :: number
  vec_z :: number

record object3d =
  position :: vec3
  rotation :: vec3
  scale :: vec3

record shadow_mesh = object3d +
  opacity :: number

section \<open>The audio collaborator\<close>

datatype audio_buffer = AssetBuffer | FallbackBuffer nat number "number list"

record audio =
  buffer :: "audio_buffer option"
  volume :: number
  isPlaying :: bool
  play_calls :: nat
  stop_calls :: nat

text \<open>
  Modelled from the spec: \<^verbatim>\<open>Audio.play\<close> and \<^verbatim>\<open>Audio.stop\<close> of the audio library, which
  is not part of the repository (``can start/stop playback and report whether playback is
  currently active''). The counters record how often each was called.
\<close>

definition audio_play :: "audio \<Rightarrow> audio" where
  "audio_play a = a\<lparr>isPlaying := True, play_calls := play_calls a + 1\<rparr>"

definition audio_stop :: "audio \<Rightarrow> audio" where
  "audio_stop a = a\<lparr>isPlaying := False, stop_calls := stop_calls a + 1\<rparr>"

section \<open>The component state\<close>

text \<open>
  The component function runs once per render. \<open>isPressed\<close> is the constant that the latest
  render took from \<^verbatim>\<open>useState(false)\<close>: the click handler and the frame callback are
  closures of that render and read this constant. \<open>pressState\<close> is the React state behind
  it: \<^verbatim>\<open>setIsPressed\<close> writes it, and the closures see the written value only after the
  component has been rendered again (\<open>render\<close>). \<open>group\<close>, \<open>shadowRef\<close> and \<open>sound\<close> are the
  refs of the component (\<open>None\<close> for a ref that is \<^verbatim>\<open>null\<close>). Pending \<^verbatim>\<open>setTimeout\<close>
  callbacks are kept with their due time in milliseconds, in the order they were scheduled;
  \<open>clock\<close> is the current time and \<open>onClick_calls\<close> counts the calls of the \<^verbatim>\<open>onClick\<close>
  prop.
\<close>

datatype timer_action = PlaySound | Release

record timer =
  due :: nat
  action :: timer_action

record keycap =
  isPressed :: bool
  pressState :: bool
  group :: "object3d option"
  shadowRef :: "shadow_mesh option"
  sound :: "audio option"
  clock :: nat
  timers :: "timer list"
  onClick_calls :: nat

definition handleClick :: "keycap \<Rightarrow> keycap" where
  "handleClick s =
     (if isPressed s then s
      else
        let s1 = s\<lparr>pressState := True, onClick_calls := onClick_calls s + 1\<rparr>;
            s2 = (case sound s1 of
                    None \<Rightarrow> s1
                  | Some a \<Rightarrow>
                      s1\<lparr>sound := Some (if isPlaying a then audio_stop a else a),
                         timers := timers s1 @ [\<lparr>due = clock s1 + 10, action = PlaySound\<rparr>]\<rparr>)
        in s2\<lparr>timers := timers s2 @ [\<lparr>due = clock s2 + 200, action = Release\<rparr>]\<rparr>)"

fun run_timer :: "timer_action \<Rightarrow> keycap \<Rightarrow> keycap" where
  "run_timer PlaySound s =
     (case sound s of None \<Rightarrow> s | Some a \<Rightarrow> s\<lparr>sound := Some (audio_play a)\<rparr>)"
| "run_timer Release s = s\<lparr>pressState := False\<rparr>"

definition elapse :: "nat \<Rightarrow> keycap \<Rightarrow> keycap" where
  \<comment> \<open>\<open>d\<close> milliseconds pass; every callback that is due by then runs, earliest first\<close>
  "elapse d s =
     (let t = clock s + d;
          ready = filter (\<lambda>r. due r \<le> t) (timers s);
          later = filter (\<lambda>r. \<not> due r \<le> t) (timers s)
      in fold (\<lambda>r. run_timer (action r)) (sort_key due ready) (s\<lparr>clock := t, timers := later\<rparr>))"

text \<open>
  The group carries \<^verbatim>\<open>onClick={handleClick}\<close>; every mesh of the model carries a handler
  of its own, which stops the propagation of the event and then calls \<open>handleClick\<close>. The
  shadow plane has no handler, so a click that meets it is handed to the group. \<open>dispatch\<close>
  runs the handlers that one pointer event reaches, in the order in which the event system
  calls them; no handler is called after one that has stopped the propagation. All of them
  are closures of the same render.
\<close>

datatype handler = GroupOnClick | MeshOnClick

fun dispatch :: "handler list \<Rightarrow> keycap \<Rightarrow> keycap" where
  "dispatch [] s = s"
| "dispatch (GroupOnClick # hs) s = dispatch hs (handleClick s)"
| "dispatch (MeshOnClick # hs) s = handleClick s"

fun calls :: "handler list \<Rightarrow> nat" where
  \<comment> \<open>how often \<open>dispatch\<close> calls \<open>handleClick\<close>\<close>
  "calls [] = 0"
| "calls (GroupOnClick # hs) = Suc (calls hs)"
| "calls (MeshOnClick # hs) = 1"

text \<open>
  Modelled from the behaviour of React, which is not part of the repository: the state
  updates made while an event or a timer callback is handled are applied by one render of
  the component after the handlers have returned. The render reads the state anew; the
  frame callback and the click handlers are replaced by the closures of that render.
\<close>

definition render :: "keycap \<Rightarrow> keycap" where
  "render s = s\<lparr>isPressed := pressState s\<rparr>"

section \<open>The frame callback\<close>

definition pressedPose :: "object3d \<Rightarrow> object3d" where
  "pressedPose g =
     g\<lparr>scale := (scale g)\<lparr>vec_z := max (js_sub (vec_z (scale g)) lit_0_04) lit_0_65\<rparr>,
       position := (position g)\<lparr>vec_z := max (js_sub (vec_z (position g)) lit_0_02) (- lit_0_15)\<rparr>,
       rotation := (rotation g)\<lparr>vec_x := min (js_add (vec_x (rotation g)) lit_0_005) lit_0_03\<rparr>\<rparr>"

definition pressedShadow :: "shadow_mesh \<Rightarrow> shadow_mesh" where
  "pressedShadow sh =
     sh\<lparr>scale := \<lparr>vec_x = lit_0_9, vec_y = lit_0_9, vec_z = 1\<rparr>,
        position := (position sh)\<lparr>vec_z := - lit_0_03\<rparr>,
        opacity := lit_0_6\<rparr>"

definition ease :: "number \<Rightarrow> number \<Rightarrow> number \<Rightarrow> number" where
  \<comment> \<open>\<^verbatim>\<open>value += (target - value) * rate\<close>\<close>
  "ease target rate v = js_add v (js_mul (js_sub target v) rate)"

definition idlePose :: "object3d \<Rightarrow> object3d" where
  "idlePose g =
     g\<lparr>scale := (scale g)\<lparr>vec_z := ease 1 lit_0_1 (vec_z (scale g))\<rparr>,
       position := (position g)\<lparr>vec_z := ease 0 lit_0_12 (vec_z (position g))\<rparr>,
       rotation := (rotation g)\<lparr>vec_x := ease 0 lit_0_15 (vec_x (rotation g))\<rparr>\<rparr>"

definition idleShadow :: "shadow_mesh \<Rightarrow> shadow_mesh" where
  "idleShadow sh =
     sh\<lparr>scale := (scale sh)\<lparr>vec_x := ease 1 lit_0_1 (vec_x (scale sh)),
                            vec_y := ease 1 lit_0_1 (vec_y (scale sh))\<rparr>,
        position := (position sh)\<lparr>vec_z := ease 0 lit_0_1 (vec_z (position sh))\<rparr>,
        opacity := ease lit_0_4 lit_0_1 (opacity sh)\<rparr>"

definition useFrame :: "keycap \<Rightarrow> keycap" where
  "useFrame s =
     (case group s of
        None \<Rightarrow> s
      | Some g \<Rightarrow>
          if isPressed s
          then s\<lparr>group := Some (pressedPose g), shadowRef := map_option pressedShadow (shadowRef s)\<rparr>
          else s\<lparr>group := Some (idlePose g), shadowRef := map_option idleShadow (shadowRef s)\<rparr>)"

section \<open>The fallback sound\<close>

text \<open>
  \<open>createFallbackSound\<close> fills a one-channel buffer of \<^verbatim>\<open>sampleRate * 0.1\<close> samples (the
  length argument of \<^verbatim>\<open>createBuffer\<close> is truncated to an integer). \<open>random i\<close> is the value
  \<^verbatim>\<open>Math.random()\<close> returns in iteration \<open>i\<close> of the loop, a number in \<open>[0, 1)\<close>; the channel
  data is a \<^verbatim>\<open>Float32Array\<close>, so each sample is rounded to binary32 when it is stored.
\<close>

definition bufferLength :: "number \<Rightarrow> nat" where
  \<comment> \<open>the length argument, converted to an \<^verbatim>\<open>unsigned long\<close>\<close>
  "bufferLength sampleRate = nat (\<lfloor>js_mul sampleRate lit_0_1\<rfloor> mod 2 ^ 32)"

definition sample :: "nat \<Rightarrow> nat \<Rightarrow> number \<Rightarrow> number" where
  "sample len i r =
     fround (if of_nat i < js_mul (of_nat len) lit_0_1
             then js_mul r lit_0_5
             else js_mul (js_mul r lit_0_5) (js_sub 1 (js_div (of_nat i) (of_nat len))))"

definition createFallbackSound :: "(nat \<Rightarrow> number) \<Rightarrow> number \<Rightarrow> audio \<Rightarrow> audio" where
  "createFallbackSound random sampleRate a =
     (let len = bufferLength sampleRate;
          channelData = map (\<lambda>i. sample len i (random i)) [0..<len]
      in a\<lparr>buffer := Some (FallbackBuffer len sampleRate channelData), volume := lit_0_3\<rparr>)"

definition envelope :: "nat \<Rightarrow> nat \<Rightarrow> number" where
  \<comment> \<open>the amplitude bound of sample \<open>i\<close>: the sample with the random factor at its supremum\<close>
  "envelope len i = sample len i 1"

section \<open>Materials\<close>

text \<open>
  A material of the loaded model is an object of some material class; \<open>isMeshStandardMaterial\<close>
  tells whether \<^verbatim>\<open>material instanceof MeshStandardMaterial\<close> holds of it. The material effect
  starts the load of the bump texture of the selected finish; the materials are customized in
  the callback of a successful load, and in no other place.
\<close>

datatype textureType = matte | glossy | carbon

record texture =
  url :: string
  wrapS_repeat :: bool
  wrapT_repeat :: bool
  repeat :: "nat \<times> nat"

record material =
  isMeshStandardMaterial :: bool
  color :: nat
  roughness :: number
  metalness :: number
  bumpMap :: "texture option"
  bumpScale :: number

record finish =
  finish_roughness :: number
  finish_metalness :: number
  finish_bumpScale :: number
  finish_bumpMapUrl :: string

definition keycapColor :: nat where
  "keycapColor = 0x0a0a0a"

fun finishOf :: "textureType \<Rightarrow> finish" where
  "finishOf glossy =
     \<lparr>finish_roughness = lit_0_1, finish_metalness = lit_0_5, finish_bumpScale = lit_0_001,
      finish_bumpMapUrl = ''https://images.unsplash.com/photo-1615400014497-55726234cccb?ixlib=rb-4.0.3&q=80&fm=jpg&crop=entropy&cs=tinysrgb&w=400''\<rparr>"
| "finishOf carbon =
     \<lparr>finish_roughness = lit_0_4, finish_metalness = lit_0_3, finish_bumpScale = lit_0_008,
      finish_bumpMapUrl = ''https://images.unsplash.com/photo-1598168413264-09c2f0b9a93c?ixlib=rb-4.0.3&q=80&fm=jpg&crop=entropy&cs=tinysrgb&w=400''\<rparr>"
| "finishOf matte =
     \<lparr>finish_roughness = lit_0_8, finish_metalness = lit_0_1, finish_bumpScale = lit_0_002,
      finish_bumpMapUrl = ''https://images.unsplash.com/photo-1541183663064-7a32e7035c94?ixlib=rb-4.0.3&q=80&fm=jpg&crop=entropy&cs=tinysrgb&w=400''\<rparr>"

definition loadedBumpMap :: "textureType \<Rightarrow> texture" where
  \<comment> \<open>the texture as the load callback leaves it: repeat wrapping, tiled 6 by 6 for carbon\<close>
  "loadedBumpMap t =
     \<lparr>url = finish_bumpMapUrl (finishOf t), wrapS_repeat = True, wrapT_repeat = True,
      repeat = (if t = carbon then (6, 6) else (3, 3))\<rparr>"

definition toLowerCase :: "string \<Rightarrow> string" where
  "toLowerCase = map (\<lambda>c. if 65 \<le> (of_char c :: nat) \<and> (of_char c :: nat) \<le> 90
                            then char_of (of_char c + 32 :: nat) else c)"

fun startsWith :: "string \<Rightarrow> string \<Rightarrow> bool" where
  "startsWith s [] = True"
| "startsWith [] (c # p) = False"
| "startsWith (d # s) (c # p) = (d = c \<and> startsWith s p)"

fun str_includes :: "string \<Rightarrow> string \<Rightarrow> bool" where
  "str_includes [] p = startsWith [] p"
| "str_includes (d # s) p = (startsWith (d # s) p \<or> str_includes s p)"

definition isLetterMaterial :: "string \<Rightarrow> bool" where
  "isLetterMaterial key \<longleftrightarrow>
     str_includes (toLowerCase key) ''letter'' \<or>
     str_includes (toLowerCase key) ''text'' \<or>
     str_includes (toLowerCase key) ''c''"

definition customize :: "textureType \<Rightarrow> string \<Rightarrow> material \<Rightarrow> material" where
  \<comment> \<open>the body of the \<^verbatim>\<open>forEach\<close> over the materials\<close>
  "customize t key m =
     (if isMeshStandardMaterial m
      then
        if isLetterMaterial key
        then m\<lparr>color := 0xffffff, roughness := lit_0_1, metalness := lit_0_2, bumpMap := None\<rparr>
        else m\<lparr>color := keycapColor,
               roughness := finish_roughness (finishOf t),
               metalness := finish_metalness (finishOf t),
               bumpMap := Some (loadedBumpMap t),
               bumpScale := finish_bumpScale (finishOf t)\<rparr>
      else m)"

definition configureMaterials ::
  "textureType \<Rightarrow> bool \<Rightarrow> (string \<times> material) list option \<Rightarrow> (string \<times> material) list option" where
  \<comment> \<open>the material effect; \<open>loaded\<close> tells whether the texture loader called back\<close>
  "configureMaterials t loaded materials =
     (case materials of
        None \<Rightarrow> None
      | Some ms \<Rightarrow> if loaded then Some (map (\<lambda>(key, m). (key, customize t key m)) ms) else Some ms)"

section \<open>Rendering\<close>

text \<open>
  The loader hands the component a table of nodes and a table of materials; \<open>None\<close> stands
  for a table that is \<^verbatim>\<open>undefined\<close>. A node is a mesh or another object, and the flag of a
  mesh tells whether the mesh has a material of its own. A mesh without one is given
  \<^verbatim>\<open>materials[key]\<close>, and reading an entry of a table that is \<^verbatim>\<open>undefined\<close> raises a
  \<^verbatim>\<open>TypeError\<close>, which leaves the component function. What the component returns is
  \<^verbatim>\<open>null\<close> (\<open>None\<close>) or the group with the shadow plane and one mesh for each mesh node.
\<close>

datatype error = TypeError

datatype node = MeshNode bool | ObjectNode

record rendered =
  shadow_plane :: shadow_mesh
  meshes :: "string list"

fun element :: "(string \<times> material) list option \<Rightarrow> string \<times> node \<Rightarrow> error + string option" where
  "element materials (key, ObjectNode) = Inr None"
| "element materials (key, MeshNode True) = Inr (Some key)"
| "element materials (key, MeshNode False) =
     (case materials of None \<Rightarrow> Inl TypeError | Some ms \<Rightarrow> Inr (Some key))"

fun elements :: "(string \<times> material) list option \<Rightarrow> (string \<times> node) list \<Rightarrow> error + string list" where
  "elements materials [] = Inr []"
| "elements materials (n # ns) =
     (case element materials n of
        Inl e \<Rightarrow> Inl e
      | Inr x \<Rightarrow>
          (case elements materials ns of
             Inl e \<Rightarrow> Inl e
           | Inr xs \<Rightarrow> Inr (case x of None \<Rightarrow> xs | Some key \<Rightarrow> key # xs)))"

definition Math_PI :: number where
  "Math_PI = 884279719003555 / 2 ^ 48"

definition restShadow :: shadow_mesh where
  "restShadow =
     \<lparr>position = \<lparr>vec_x = 0, vec_y = - lit_0_2, vec_z = 0\<rparr>,
      rotation = \<lparr>vec_x = js_div (- Math_PI) 2, vec_y = 0, vec_z = 0\<rparr>,
      scale = \<lparr>vec_x = 1, vec_y = 1, vec_z = 1\<rparr>,
      opacity = lit_0_4\<rparr>"

definition restGroup :: object3d where
  \<comment> \<open>the pose the camera effect sets on a new group\<close>
  "restGroup =
     \<lparr>position = \<lparr>vec_x = 0, vec_y = lit_0_2, vec_z = 0\<rparr>,
      rotation = \<lparr>vec_x = 0, vec_y = 0, vec_z = 0\<rparr>,
      scale = \<lparr>vec_x = 1, vec_y = 1, vec_z = 1\<rparr>\<rparr>"

definition KeycapModel ::
  "(string \<times> node) list option \<Rightarrow> (string \<times> material) list option \<Rightarrow>
     error + (rendered option \<times> string list)" where
  \<comment> \<open>what the component returns and what it writes to \<^verbatim>\<open>console.error\<close>, or the exception\<close>
  "KeycapModel nodes materials =
     (case nodes of
        None \<Rightarrow> Inr (None, [''Failed to load keycap model''])
      | Some ns \<Rightarrow>
          (case elements materials ns of
             Inl e \<Rightarrow> Inl e
           | Inr keys \<Rightarrow> Inr (Some \<lparr>shadow_plane = restShadow, meshes = keys\<rparr>, [])))"

definition mounted :: "(string \<times> node) list option \<Rightarrow> keycap" where
  \<comment> \<open>the state after the first render and its effects\<close>
  "mounted nodes =
     \<lparr>isPressed = False,
      pressState = False,
      group = (if nodes = None then None else Some restGroup),
      shadowRef = (if nodes = None then None else Some restShadow),
      sound = Some \<lparr>buffer = None, volume = 1, isPlaying = False, play_calls = 0, stop_calls = 0\<rparr>,
      clock = 0,
      timers = [],
      onClick_calls = 0\<rparr>"

section \<open>Events\<close>

text \<open>
  What happens to a mounted component: a pointer click, which reaches the listed handlers; a
  frame; the passage of some milliseconds, in which the timers that come due call back; and
  the callbacks of the audio. The component is rendered again after a click and after the
  timer callbacks, since both can write the press state.
\<close>

datatype event =
    Click "handler list" | Frame | Elapse nat | SoundEnded | SoundLoaded
  | SoundError "nat \<Rightarrow> number" number

fun step :: "event \<Rightarrow> keycap \<Rightarrow> keycap" where
  "step (Click hs) s = render (dispatch hs s)"
| "step Frame s = useFrame s"
| "step (Elapse d) s = render (elapse d s)"
| "step SoundEnded s = s\<lparr>sound := map_option (\<lambda>a. a\<lparr>isPlaying := False\<rparr>) (sound s)\<rparr>"
| "step SoundLoaded s =
     s\<lparr>sound := map_option (\<lambda>a. a\<lparr>buffer := Some AssetBuffer, volume := lit_0_7\<rparr>) (sound s)\<rparr>"
| "step (SoundError random sampleRate) s =
     s\<lparr>sound := map_option (createFallbackSound random sampleRate) (sound s)\<rparr>"

definition run :: "event list \<Rightarrow> keycap \<Rightarrow> keycap" where
  "run es s = fold step es s"

section \<open>Notions used by the properties\<close>

definition pending_releases :: "keycap \<Rightarrow> timer list" where
  "pending_releases s = filter (\<lambda>r. action r = Release) (timers s)"

fun elapsed :: "event list \<Rightarrow> nat" where
  "elapsed [] = 0"
| "elapsed (Elapse d # es) = d + elapsed es"
| "elapsed (e # es) = elapsed es"

definition held :: "nat \<Rightarrow> nat \<Rightarrow> keycap \<Rightarrow> bool" where
  \<comment> \<open>pressed, also in the eyes of the latest render, with \<open>n\<close> releases pending, one or
      more, all of them due at \<open>T\<close>, which has not come yet\<close>
  "held n T s \<longleftrightarrow>
     isPressed s \<and> pressState s \<and> 0 < n \<and>
     pending_releases s = replicate n \<lparr>due = T, action = Release\<rparr> \<and> clock s < T"

definition press_inv :: "keycap \<Rightarrow> bool" where
  "press_inv s \<longleftrightarrow>
     isPressed s = pressState s \<and>
     (if pressState s then \<exists>n T. held n T s else pending_releases s = [])"

definition finishTuple :: "material \<Rightarrow> number \<times> number \<times> number \<times> (nat \<times> nat) option" where
  \<comment> \<open>roughness, metalness, bump scale and the tiling of the bump map of a material\<close>
  "finishTuple m = (roughness m, metalness m, bumpScale m, map_option repeat (bumpMap m))"

definition cubeModel :: "(string \<times> node) list option" where
  \<comment> \<open>a loaded model with one mesh\<close>
  "cubeModel = Some [(''Cube'', MeshNode True)]"

definition pastBounds :: keycap where
  \<comment> \<open>a pressed key whose pose is beyond all three clamps\<close>
  "pastBounds =
     \<lparr>isPressed = True,
      pressState = True,
      group = Some \<lparr>position = \<lparr>vec_x = 0, vec_y = 0, vec_z = - 1\<rparr>,
                    rotation = \<lparr>vec_x = 1, vec_y = 0, vec_z = 0\<rparr>,
                    scale = \<lparr>vec_x = 1, vec_y = 1, vec_z = 1 / 4\<rparr>\<rparr>,
      shadowRef = None, sound = None, clock = 0, timers = [], onClick_calls = 0\<rparr>"

text \<open>
  Three materials as a loaded model can hold them: a \<^verbatim>\<open>MeshStandardMaterial\<close> with the
  defaults of its class, a grey one, and a grey material of another class.
\<close>

definition whiteMaterial :: material where
  "whiteMaterial =
     \<lparr>isMeshStandardMaterial = True, color = 0xffffff, roughness = 1, metalness = 0,
      bumpMap = None, bumpScale = 1\<rparr>"

definition greyMaterial :: material where
  "greyMaterial = whiteMaterial\<lparr>color := 0x808080\<rparr>"

definition basicMaterial :: material where
  "basicMaterial = greyMaterial\<lparr>isMeshStandardMaterial := False\<rparr>"

definition ulp :: "number \<Rightarrow> rat" where
  \<comment> \<open>the distance between neighbouring binary64 values at \<open>v\<close>\<close>
  "ulp = ulp_fmt 53 (- 1022)"

definition eases_toward :: "number \<Rightarrow> number \<Rightarrow> number \<Rightarrow> bool" where
  \<comment> \<open>\<open>v'\<close> lies between \<open>v\<close> and the target \<open>t\<close>, and is nearer to it unless \<open>v\<close> was within 16 ulp\<close>
  "eases_toward t v v' \<longleftrightarrow>
     (v \<le> t \<longrightarrow> v \<le> v' \<and> v' \<le> t) \<and>
     (t \<le> v \<longrightarrow> t \<le> v' \<and> v' \<le> v) \<and>
     (16 * ulp v \<le> \<bar>t - v\<bar> \<longrightarrow> \<bar>t - v'\<bar> < \<bar>t - v\<bar>)"

text \<open>The state right after the release of a key that was pressed for nine frames or more.\<close>

definition released :: keycap where
  "released =
     \<lparr>isPressed = False,
      pressState = False,
      group = Some \<lparr>position = \<lparr>vec_x = 0, vec_y = lit_0_2, vec_z = - lit_0_15\<rparr>,
                    rotation = \<lparr>vec_x = lit_0_03, vec_y = 0, vec_z = 0\<rparr>,
                    scale = \<lparr>vec_x = 1, vec_y = 1, vec_z = lit_0_65\<rparr>\<rparr>,
      shadowRef = Some (pressedShadow restShadow),
      sound = None, clock = 200, timers = [], onClick_calls = 1\<rparr>"

text \<open>The factor of the decay branch of the fallback sound, and an audio object as the audio effect creates it.\<close>

definition decayGain :: "nat \<Rightarrow> nat \<Rightarrow> number" where
  "decayGain len i = js_sub 1 (js_div (of_nat i) (of_nat len))"

definition newAudio :: audio where
  "newAudio = \<lparr>buffer = None, volume = 1, isPlaying = False, play_calls = 0, stop_calls = 0\<rparr>"

text \<open>The three clamped steps of a pressed frame, as functions of the old component.\<close>

definition scaleStep :: "number \<Rightarrow> number" where
  "scaleStep z = max (js_sub z lit_0_04) lit_0_65"

definition positionStep :: "number \<Rightarrow> number" where
  "positionStep z = max (js_sub z lit_0_02) (- lit_0_15)"

definition rotationStep :: "number \<Rightarrow> number" where
  "rotationStep z = min (js_add z lit_0_005) lit_0_03"

section \<open>Rounding\<close>

lemma rte_cases:
  "roundTiesToEven q = \<lfloor>q\<rfloor> \<or> roundTiesToEven q = \<lfloor>q\<rfloor> + 1"
  by (simp add: roundTiesToEven_def Let_def)

lemma rte_of_int [simp]: "roundTiesToEven (of_int n) = n"
  by (simp add: roundTiesToEven_def Let_def)

lemma rte_0 [simp]: "roundTiesToEven 0 = 0"
  using rte_of_int[of 0] by simp

lemma rte_error: "\<bar>of_int (roundTiesToEven q) - q\<bar> \<le> 1 / 2"
proof -
  have "of_int \<lfloor>q\<rfloor> \<le> q" "q < of_int \<lfloor>q\<rfloor> + 1" by linarith+
  then show ?thesis
    by (auto simp add: roundTiesToEven_def Let_def abs_le_iff)
qed

lemma rte_mono:
  assumes "q \<le> r"
  shows "roundTiesToEven q \<le> roundTiesToEven r"
proof (cases "\<lfloor>q\<rfloor> = \<lfloor>r\<rfloor>")
  case True
  then show ?thesis using assms
    by (auto simp add: roundTiesToEven_def Let_def)
next
  case False
  then have "\<lfloor>q\<rfloor> + 1 \<le> \<lfloor>r\<rfloor>" using floor_mono[OF assms] by simp
  moreover have "roundTiesToEven q \<le> \<lfloor>q\<rfloor> + 1" using rte_cases[of q] by auto
  moreover have "\<lfloor>r\<rfloor> \<le> roundTiesToEven r" using rte_cases[of r] by auto
  ultimately show ?thesis by linarith
qed

lemma rte_minus: "roundTiesToEven (- q) = - roundTiesToEven q"
proof (cases "q \<in> \<int>")
  case True
  then obtain n where "q = of_int n" by (auto elim: Ints_cases)
  then show ?thesis using rte_of_int[of "- n"] by simp
next
  case False
  then have "q \<noteq> of_int \<lfloor>q\<rfloor>" by (metis Ints_of_int)
  then have f: "\<lfloor>- q\<rfloor> = - \<lfloor>q\<rfloor> - 1"
    by (simp add: floor_minus ceiling_altdef)
  show ?thesis
    unfolding roundTiesToEven_def Let_def f
    by (auto simp add: field_simps)
qed

lemma rte_le_double:
  assumes "0 \<le> q"
  shows "of_int (roundTiesToEven q) \<le> 2 * q"
proof (cases "q < 1 / 2")
  case True
  then have "\<lfloor>q\<rfloor> = 0" using assms by (simp add: floor_eq_iff)
  then have "roundTiesToEven q = 0" using True by (simp add: roundTiesToEven_def Let_def)
  then show ?thesis using assms by simp
next
  case False
  then show ?thesis using rte_error[of q] by linarith
qed


lemma p2_pos [simp]: "0 < (2::rat) powi e"
  by (simp add: zero_less_power_int)

lemma p2_add: "(2::rat) powi (a + b) = 2 powi a * 2 powi b"
  by (simp add: power_int_add)

lemma p2_diff: "(2::rat) powi (a - b) = 2 powi a / 2 powi b"
  by (simp add: power_int_diff)

lemma p2_mono: "a \<le> b \<Longrightarrow> (2::rat) powi a \<le> 2 powi b"
  by (simp add: power_int_increasing)

lemma p2_strict: "a < b \<Longrightarrow> (2::rat) powi a < 2 powi b"
  by (simp add: power_int_strict_increasing)

lemma p2_less_imp: "(2::rat) powi a < 2 powi b \<Longrightarrow> a < b"
  using p2_mono[of b a] by (cases "a < b") simp_all

lemma p2_Suc: "(2::rat) powi (a + 1) = 2 * 2 powi a"
  by (simp add: p2_add)

lemma p2_pow_mult: "(2::rat) ^ n * 2 powi a = 2 powi (int n + a)"
  by (simp add: p2_add)

lemma int_bitlen_bounds:
  assumes "0 < n"
  shows "(2::rat) powi (bitlen n - 1) \<le> of_int n" and "of_int n < (2::rat) powi bitlen n"
proof -
  have b: "1 \<le> bitlen n" using assms by (simp add: bitlen_alt_def)
  have "(2::int) ^ nat (bitlen n - 1) \<le> n" "n < 2 ^ nat (bitlen n)"
    using bitlen_bounds[OF assms] by simp_all
  then have "(of_int (2 ^ nat (bitlen n - 1)) :: rat) \<le> of_int n"
    "(of_int n :: rat) < of_int (2 ^ nat (bitlen n))"
    by (simp_all only: of_int_le_iff of_int_less_iff)
  then show "(2::rat) powi (bitlen n - 1) \<le> of_int n" "of_int n < (2::rat) powi bitlen n"
    using b by (simp_all add: power_int_nonneg_exp)
qed

lemma binade_bounds:
  assumes "x \<noteq> 0"
  shows "2 powi binade x \<le> \<bar>x\<bar>" and "\<bar>x\<bar> < 2 powi (binade x + 1)"
proof -
  obtain p q where pq: "quotient_of \<bar>x\<bar> = (p, q)" by (cases "quotient_of \<bar>x\<bar>")
  have q: "0 < q" using pq by (rule quotient_of_denom_pos)
  have x: "\<bar>x\<bar> = of_int p / of_int q" using pq by (rule quotient_of_div)
  have "0 < \<bar>x\<bar>" using assms by simp
  then have p: "0 < p" using q x by (simp add: zero_less_divide_iff)
  define e where "e = bitlen p - bitlen q"
  have qpos: "0 < (of_int q :: rat)" using q by simp
  have up: "\<bar>x\<bar> < 2 powi (e + 1)"
  proof -
    have "of_int p < (2::rat) powi bitlen p" using p by (rule int_bitlen_bounds)
    also have "\<dots> = 2 powi (e + 1) * 2 powi (bitlen q - 1)"
      by (simp add: e_def flip: p2_add)
    also have "\<dots> \<le> 2 powi (e + 1) * of_int q"
      using int_bitlen_bounds(1)[OF q] by (intro mult_left_mono) simp_all
    finally show ?thesis using qpos by (simp add: x pos_divide_less_eq)
  qed
  have lo: "2 powi (e - 1) \<le> \<bar>x\<bar>"
  proof -
    have "2 powi (e - 1) * of_int q \<le> 2 powi (e - 1) * (2::rat) powi bitlen q"
      using int_bitlen_bounds(2)[OF q] by (intro mult_left_mono) simp_all
    also have "\<dots> = 2 powi (bitlen p - 1)"
      by (simp add: e_def flip: p2_add)
    also have "\<dots> \<le> of_int p" using p by (rule int_bitlen_bounds)
    finally show ?thesis using qpos by (simp add: x pos_le_divide_eq)
  qed
  have b: "binade x = (if 2 powi e \<le> \<bar>x\<bar> then e else e - 1)"
    by (simp add: binade_def pq e_def Let_def)
  show "2 powi binade x \<le> \<bar>x\<bar>" using lo by (simp add: b)
  show "\<bar>x\<bar> < 2 powi (binade x + 1)" using up by (simp add: b)
qed

lemma binade_unique:
  assumes "2 powi e \<le> \<bar>x\<bar>" and "\<bar>x\<bar> < 2 powi (e + 1)"
  shows "binade x = e"
proof -
  have "0 < \<bar>x\<bar>" using assms(1) p2_pos[of e] by linarith
  then have nz: "x \<noteq> 0" by simp
  have "2 powi e < (2::rat) powi (binade x + 1)"
    using assms(1) binade_bounds(2)[OF nz] by simp
  then have a: "e < binade x + 1" by (rule p2_less_imp)
  have "2 powi binade x < (2::rat) powi (e + 1)"
    using assms(2) binade_bounds(1)[OF nz] by simp
  then have "binade x < e + 1" by (rule p2_less_imp)
  then show ?thesis using a by simp
qed

lemma binade_mono:
  assumes "x \<noteq> 0" and "\<bar>x\<bar> \<le> \<bar>y\<bar>"
  shows "binade x \<le> binade y"
proof -
  have nz: "y \<noteq> 0" using assms by auto
  have "2 powi binade x < (2::rat) powi (binade y + 1)"
    using binade_bounds(1)[OF assms(1)] binade_bounds(2)[OF nz] assms(2) by simp
  then have "binade x < binade y + 1" by (rule p2_less_imp)
  then show ?thesis by simp
qed

lemma binade_minus [simp]: "binade (- x) = binade x"
  by (simp add: binade_def)


lemma ulp_pos [simp]: "0 < ulp_fmt p emin x"
  by (simp add: ulp_fmt_def)

lemma ulp_nz [simp]: "ulp_fmt p emin x \<noteq> 0"
  using ulp_pos[of p emin x] by (simp del: ulp_pos)

lemma ulp_ge0 [simp]: "0 \<le> ulp_fmt p emin x"
  using ulp_pos[of p emin x] by (simp del: ulp_pos)

lemma abs_ulp [simp]: "\<bar>ulp_fmt p emin x\<bar> = ulp_fmt p emin x"
  by simp

lemma ulp_minus [simp]: "ulp_fmt p emin (- x) = ulp_fmt p emin x"
  by (simp add: ulp_fmt_def)

lemma round_fmt_0 [simp]: "round_fmt p emin 0 = 0"
  by (simp add: round_fmt_def)

lemma round_fmt_minus: "round_fmt p emin (- x) = - round_fmt p emin x"
  by (simp add: round_fmt_def rte_minus)

lemma round_fmt_error: "\<bar>round_fmt p emin x - x\<bar> \<le> ulp_fmt p emin x / 2"
proof -
  let ?u = "ulp_fmt p emin x"
  have "round_fmt p emin x - x = (of_int (roundTiesToEven (x / ?u)) - x / ?u) * ?u"
    by (simp add: round_fmt_def algebra_simps)
  then have "\<bar>round_fmt p emin x - x\<bar> = \<bar>of_int (roundTiesToEven (x / ?u)) - x / ?u\<bar> * ?u"
    by (simp add: abs_mult)
  also have "\<dots> \<le> (1 / 2) * ?u"
    by (intro mult_right_mono rte_error) simp
  finally show ?thesis by simp
qed

lemma round_fmt_nonneg:
  assumes "0 \<le> x"
  shows "0 \<le> round_fmt p emin x"
proof -
  have "roundTiesToEven 0 \<le> roundTiesToEven (x / ulp_fmt p emin x)"
    using assms by (intro rte_mono) simp
  then show ?thesis by (simp add: round_fmt_def)
qed

lemma round_fmt_le_double:
  assumes "0 \<le> x"
  shows "round_fmt p emin x \<le> 2 * x"
proof -
  let ?u = "ulp_fmt p emin x"
  have "of_int (roundTiesToEven (x / ?u)) \<le> 2 * (x / ?u)"
    using assms by (intro rte_le_double) simp
  then have "of_int (roundTiesToEven (x / ?u)) * ?u \<le> 2 * (x / ?u) * ?u"
    by (intro mult_right_mono) simp_all
  then show ?thesis by (simp add: round_fmt_def)
qed

lemma round_fmt_integral:
  assumes "x / ulp_fmt p emin x = of_int m"
  shows "round_fmt p emin x = x"
proof -
  have "round_fmt p emin x = of_int m * ulp_fmt p emin x"
    by (simp add: round_fmt_def assms)
  also have "\<dots> = x / ulp_fmt p emin x * ulp_fmt p emin x"
    by (simp only: assms)
  finally show ?thesis by simp
qed

lemma scaled_less:
  assumes "x \<noteq> 0"
  shows "\<bar>x\<bar> / ulp_fmt p emin x < 2 ^ p"
proof -
  have "\<bar>x\<bar> < 2 powi (binade x + 1)" using assms by (rule binade_bounds)
  also have "\<dots> \<le> 2 powi (max (binade x) emin + 1)" by (intro p2_mono) simp
  also have "\<dots> = 2 ^ p * ulp_fmt p emin x"
    by (simp add: ulp_fmt_def p2_pow_mult)
  finally show ?thesis by (simp add: pos_divide_less_eq)
qed

lemma rte_scaled_le: "\<bar>roundTiesToEven (x / ulp_fmt p emin x)\<bar> \<le> 2 ^ p"
proof (cases "x = 0")
  case True
  then show ?thesis by simp
next
  case False
  let ?q = "x / ulp_fmt p emin x"
  have "\<bar>?q\<bar> = \<bar>x\<bar> / ulp_fmt p emin x" by (simp add: abs_divide)
  then have "\<bar>?q\<bar> < 2 ^ p" using scaled_less[OF False, of p emin] by simp
  then have "?q \<le> 2 ^ p" "- (2 ^ p) \<le> ?q"
    by linarith+
  then have a: "?q \<le> of_int (2 ^ p)" and b: "of_int (- (2 ^ p)) \<le> ?q"
    by simp_all
  have "roundTiesToEven ?q \<le> roundTiesToEven (of_int (2 ^ p))"
    using a by (rule rte_mono)
  moreover have "roundTiesToEven (of_int (- (2 ^ p))) \<le> roundTiesToEven ?q"
    using b by (rule rte_mono)
  ultimately have "roundTiesToEven ?q \<le> 2 ^ p \<and> - (2 ^ p) \<le> roundTiesToEven ?q"
    by (simp only: rte_of_int)
  then show ?thesis by (simp add: abs_le_iff)
qed

lemma round_fmt_fixed:
  assumes y: "y = of_int n * 2 powi k" and n: "\<bar>n\<bar> \<le> 2 ^ p"
    and k: "emin - int p + 1 \<le> k" and p: "1 \<le> p"
  shows "round_fmt p emin y = y"
proof (cases "n = 0")
  case True
  then show ?thesis by (simp add: y)
next
  case False
  then have nz: "y \<noteq> 0" by (simp add: y)
  define j where "j = max (binade y) emin - (int p - 1)"
  have u: "ulp_fmt p emin y = 2 powi j" by (simp add: ulp_fmt_def j_def)
  show ?thesis
  proof (cases "j \<le> k")
    case True
    have "y / 2 powi j = of_int n * 2 powi (k - j)"
      by (simp add: y p2_diff)
    then have "y / ulp_fmt p emin y = of_int n * 2 powi (k - j)"
      by (simp only: u)
    also have "\<dots> = of_int (n * 2 ^ nat (k - j))"
      using True by (simp add: power_int_nonneg_exp)
    finally show ?thesis by (rule round_fmt_integral)
  next
    case False
    then have b: "k + int p \<le> binade y" using k by (simp add: j_def max_def split: if_splits)
    have "2 powi (k + int p) \<le> (2::rat) powi binade y" using b by (rule p2_mono)
    also have "\<dots> \<le> \<bar>y\<bar>" using nz by (rule binade_bounds)
    also have "\<dots> = of_int \<bar>n\<bar> * 2 powi k" by (simp add: y abs_mult)
    finally have "(2::rat) ^ p * 2 powi k \<le> of_int \<bar>n\<bar> * 2 powi k"
      by (simp add: p2_add mult.commute)
    then have "(2::rat) ^ p \<le> of_int \<bar>n\<bar>" by simp
    then have "(of_int (2 ^ p) :: rat) \<le> of_int \<bar>n\<bar>" by simp
    then have "2 ^ p \<le> \<bar>n\<bar>" by (simp only: of_int_le_iff)
    then have an: "\<bar>n\<bar> = 2 ^ p" using n by simp
    then have ay: "\<bar>y\<bar> = 2 powi (k + int p)"
      by (simp add: y abs_mult p2_add mult.commute flip: of_int_abs)
    have "binade y = k + int p"
      using ay by (intro binade_unique) (simp_all add: p2_strict)
    then have j: "j = k + 1" using k by (simp add: j_def)
    obtain p' where p': "p = Suc p'" using p by (cases p) simp_all
    have "n = 2 * 2 ^ p' \<or> n = - (2 * 2 ^ p')"
      using an by (simp add: abs_if p' split: if_splits)
    then have "y / 2 powi (k + 1) = of_int (2 ^ p') \<or> y / 2 powi (k + 1) = of_int (- (2 ^ p'))"
      by (rule disjE) (simp_all add: y p2_Suc)
    then have "y / ulp_fmt p emin y = of_int (2 ^ p') \<or> y / ulp_fmt p emin y = of_int (- (2 ^ p'))"
      by (simp only: u j)
    then show ?thesis using round_fmt_integral by blast
  qed
qed

lemma round_fmt_idem:
  assumes "1 \<le> p"
  shows "round_fmt p emin (round_fmt p emin x) = round_fmt p emin x"
proof -
  have "round_fmt p emin x =
      of_int (roundTiesToEven (x / ulp_fmt p emin x)) * 2 powi (max (binade x) emin - (int p - 1))"
    by (simp add: round_fmt_def ulp_fmt_def)
  then show ?thesis
    using rte_scaled_le[of x p emin]
    by (rule round_fmt_fixed) (use assms in simp_all)
qed

lemma round_fmt_mono_pos:
  assumes x: "0 < x" and xy: "x \<le> y" and p: "1 \<le> p"
  shows "round_fmt p emin x \<le> round_fmt p emin y"
proof -
  have y: "0 < y" using x xy by simp
  define bx where "bx = max (binade x) emin"
  define b where "b = max (binade y) emin"
  have bb: "bx \<le> b"
    using binade_mono[of x y] x xy by (simp add: bx_def b_def max_def)
  have ux: "ulp_fmt p emin x = 2 powi (bx - (int p - 1))" by (simp add: ulp_fmt_def bx_def)
  have uy: "ulp_fmt p emin y = 2 powi (b - (int p - 1))" by (simp add: ulp_fmt_def b_def)
  show ?thesis
  proof (cases "bx = b")
    case True
    then have u: "ulp_fmt p emin x = ulp_fmt p emin y" by (simp add: ux uy)
    have "x / ulp_fmt p emin y \<le> y / ulp_fmt p emin y"
      using xy by (intro divide_right_mono) simp_all
    then have "roundTiesToEven (x / ulp_fmt p emin y) \<le> roundTiesToEven (y / ulp_fmt p emin y)"
      by (rule rte_mono)
    then show ?thesis by (simp add: round_fmt_def u)
  next
    case False
    then have lt: "bx < b" using bb by simp
    then have bdef: "b = binade y" by (simp add: b_def bx_def max_def split: if_splits)
    have "round_fmt p emin x \<le> 2 ^ p * ulp_fmt p emin x"
    proof -
      have "roundTiesToEven (x / ulp_fmt p emin x) \<le> 2 ^ p"
        using rte_scaled_le[of x p emin] by (simp add: abs_le_iff)
      then have "(of_int (roundTiesToEven (x / ulp_fmt p emin x)) :: rat) \<le> of_int (2 ^ p)"
        by (simp only: of_int_le_iff)
      then show ?thesis by (simp add: round_fmt_def)
    qed
    also have "\<dots> = 2 powi (bx + 1)"
      by (simp add: ux flip: p2_add power_int_of_nat)
    also have "\<dots> \<le> 2 powi b" using lt by (intro p2_mono) simp
    also have "\<dots> \<le> round_fmt p emin y"
    proof -
      obtain p' where p': "p = Suc p'" using p by (cases p) simp_all
      have "2 powi b / 2 powi (b - int p') = (2::rat) powi (b - (b - int p'))"
        by (rule p2_diff[symmetric])
      then have e: "2 powi b / ulp_fmt p emin y = of_int (2 ^ p')"
        unfolding uy by (simp add: p')
      have "2 powi b \<le> y" using binade_bounds(1)[of y] y by (simp add: bdef)
      then have "2 powi b / ulp_fmt p emin y \<le> y / ulp_fmt p emin y"
        by (intro divide_right_mono) simp_all
      then have "roundTiesToEven (of_int (2 ^ p')) \<le> roundTiesToEven (y / ulp_fmt p emin y)"
        by (intro rte_mono) (simp only: e)
      then have "(of_int (2 ^ p') :: rat) \<le> of_int (roundTiesToEven (y / ulp_fmt p emin y))"
        by (simp only: rte_of_int of_int_le_iff)
      then have "of_int (2 ^ p') * ulp_fmt p emin y \<le> round_fmt p emin y"
        unfolding round_fmt_def by (intro mult_right_mono) simp_all
      moreover have "of_int (2 ^ p') * ulp_fmt p emin y = 2 powi b"
        using e by (simp add: field_simps)
      ultimately show ?thesis by simp
    qed
    finally show ?thesis .
  qed
qed


lemma round_fmt_mono:
  assumes xy: "x \<le> y" and p: "1 \<le> p"
  shows "round_fmt p emin x \<le> round_fmt p emin y"
proof -
  consider "0 < x" | "x \<le> 0" "0 \<le> y" | "y < 0" by linarith
  then show ?thesis
  proof cases
    case 1
    then show ?thesis using xy p by (rule round_fmt_mono_pos)
  next
    case 2
    have "round_fmt p emin x \<le> 0"
      using round_fmt_nonneg[of "- x" p emin] 2(1) by (simp add: round_fmt_minus)
    also have "0 \<le> round_fmt p emin y" using 2(2) by (rule round_fmt_nonneg)
    finally show ?thesis .
  next
    case 3
    have "round_fmt p emin (- y) \<le> round_fmt p emin (- x)"
      using 3 xy p by (intro round_fmt_mono_pos) simp_all
    then show ?thesis by (simp add: round_fmt_minus)
  qed
qed

lemma fl_0 [simp]: "fl 0 = 0"
  by (simp add: fl_def)

lemma fl_minus: "fl (- x) = - fl x"
  by (simp add: fl_def round_fmt_minus)

lemma fl_mono: "x \<le> y \<Longrightarrow> fl x \<le> fl y"
  by (simp add: fl_def round_fmt_mono)

lemma fl_nonneg: "0 \<le> x \<Longrightarrow> 0 \<le> fl x"
  by (simp add: fl_def round_fmt_nonneg)

lemma fl_le_double: "0 \<le> x \<Longrightarrow> fl x \<le> 2 * x"
  by (simp add: fl_def round_fmt_le_double)

lemma fl_idem [simp]: "fl (fl x) = fl x"
  by (simp add: fl_def round_fmt_idem)

lemma is_double_fl [simp]: "is_double (fl x)"
  by (simp add: is_double_def)

lemma fl_fixed:
  assumes "y = of_int n * 2 powi k" and "\<bar>n\<bar> \<le> 2 ^ 53" and "- 1074 \<le> k"
  shows "fl y = y"
  unfolding fl_def using assms by (intro round_fmt_fixed[where n = n and k = k]) simp_all

lemma fl_1 [simp]: "fl 1 = 1"
  by (rule fl_fixed[of 1 1 0]) simp_all

lemma fl_error: "\<bar>fl x - x\<bar> \<le> ulp x / 2"
  unfolding fl_def ulp_def by (rule round_fmt_error)

lemma ulp_gt0 [simp]: "0 < ulp v"
  by (simp add: ulp_def)

lemma ulp_neq0 [simp]: "ulp v \<noteq> 0"
  by (simp add: ulp_def)

lemma ulp_neg [simp]: "ulp (- v) = ulp v"
  by (simp add: ulp_def)

lemma fl_pow2_ulp: "0 \<le> j \<Longrightarrow> fl (2 ^ nat j * ulp v) = 2 ^ nat j * ulp v"
proof -
  assume j: "0 \<le> j"
  have "2 ^ nat j * ulp v = of_int 1 * 2 powi (j + (max (binade v) (- 1022) - 52))"
    using j by (simp add: ulp_def ulp_fmt_def p2_add power_int_nonneg_exp)
  then show ?thesis by (rule fl_fixed) (use j in simp_all)
qed

lemma fl_ulp [simp]: "fl (ulp v) = ulp v"
  using fl_pow2_ulp[of 0 v] by simp

lemma fl_succ:
  assumes "is_double v"
  shows "fl (v + ulp v) = v + ulp v"
proof -
  define n where "n = roundTiesToEven (v / ulp v)"
  have v: "v = of_int n * ulp v"
    using assms by (simp add: is_double_def fl_def round_fmt_def ulp_def n_def)
  have q: "v / ulp v = of_int n" by (subst v) simp
  have "\<bar>n\<bar> < 2 ^ 53"
  proof (cases "v = 0")
    case True
    then show ?thesis by (simp add: n_def)
  next
    case False
    have "\<bar>v / ulp v\<bar> = \<bar>v\<bar> / ulp v" by (simp add: abs_divide ulp_def)
    then have "\<bar>v / ulp v\<bar> < 2 ^ 53"
      using scaled_less[OF False, of 53 "- 1022"] by (simp add: ulp_def)
    then have "(of_int \<bar>n\<bar> :: rat) < of_int (2 ^ 53)" by (simp add: q)
    then show ?thesis by (simp only: of_int_less_iff)
  qed
  then have n: "\<bar>n + 1\<bar> \<le> 2 ^ 53" by simp
  have "v + ulp v = of_int (n + 1) * 2 powi (max (binade v) (- 1022) - 52)"
    using v by (simp add: ulp_def ulp_fmt_def algebra_simps)
  then show ?thesis using n by (rule fl_fixed) simp
qed

lemma ease_minus: "ease (- t) r (- v) = - ease t r v"
proof -
  have "js_sub (- t) (- v) = - js_sub t v"
    using fl_minus[of "t - v"] by (simp add: js_sub_def)
  then have "js_mul (js_sub (- t) (- v)) r = - js_mul (js_sub t v) r"
    using fl_minus[of "js_sub t v * r"] by (simp add: js_mul_def)
  then show ?thesis
    using fl_minus[of "v + js_mul (js_sub t v) r"] by (simp add: ease_def js_add_def)
qed

lemma ease_step_bounds:
  assumes vt: "v \<le> t" and r: "0 \<le> r" "r \<le> 1 / 4"
  shows "0 \<le> js_mul (js_sub t v) r" and "js_mul (js_sub t v) r \<le> t - v"
proof -
  let ?d = "js_sub t v"
  have d0: "0 \<le> ?d" using vt by (simp add: js_sub_def fl_nonneg)
  have d2: "?d \<le> 2 * (t - v)" unfolding js_sub_def using vt by (intro fl_le_double) simp
  have dr0: "0 \<le> ?d * r" using d0 r by simp
  show "0 \<le> js_mul ?d r" using dr0 by (simp add: js_mul_def fl_nonneg)
  have "js_mul ?d r \<le> 2 * (?d * r)" using dr0 by (simp add: js_mul_def fl_le_double)
  also have "\<dots> \<le> 2 * (?d * (1 / 4))"
    using r d0 by (intro mult_left_mono) simp_all
  also have "\<dots> \<le> t - v" using d2 by simp
  finally show "js_mul ?d r \<le> t - v" .
qed

lemma ease_between_up:
  assumes v: "is_double v" and t: "is_double t" and vt: "v \<le> t"
    and r: "0 \<le> r" "r \<le> 1 / 4"
  shows "v \<le> ease t r v" and "ease t r v \<le> t"
proof -
  let ?m = "js_mul (js_sub t v) r"
  have m: "0 \<le> ?m" "?m \<le> t - v" using vt r by (rule ease_step_bounds)+
  have "fl v \<le> fl (v + ?m)" using m by (intro fl_mono) simp
  then show "v \<le> ease t r v" using v by (simp add: ease_def js_add_def is_double_def)
  have "fl (v + ?m) \<le> fl t" using m by (intro fl_mono) simp
  then show "ease t r v \<le> t" using t by (simp add: ease_def js_add_def is_double_def)
qed

lemma is_double_minus: "is_double (- v) = is_double v"
  by (auto simp add: is_double_def fl_minus)

lemma ease_between_down:
  assumes v: "is_double v" and t: "is_double t" and vt: "t \<le> v"
    and r: "0 \<le> r" "r \<le> 1 / 4"
  shows "t \<le> ease t r v" and "ease t r v \<le> v"
proof -
  have a: "is_double (- v)" "is_double (- t)" "- v \<le> - t"
    using v t vt by (simp_all add: is_double_minus)
  have "- v \<le> ease (- t) r (- v)" "ease (- t) r (- v) \<le> - t"
    using a r by (rule ease_between_up)+
  then show "t \<le> ease t r v" "ease t r v \<le> v" by (simp_all add: ease_minus)
qed

lemma ease_moves_up:
  assumes v: "is_double v" and far: "v + 16 * ulp v \<le> t" and r: "1 / 16 \<le> r"
  shows "v < ease t r v"
proof -
  let ?d = "js_sub t v"
  have "fl (2 ^ nat 4 * ulp v) \<le> fl (t - v)" using far by (intro fl_mono) simp
  then have d: "16 * ulp v \<le> ?d"
    using fl_pow2_ulp[of 4 v] by (simp add: js_sub_def)
  have d0: "0 \<le> ?d" using d ulp_gt0[of v] by linarith
  have "ulp v = 16 * ulp v * (1 / 16)" by simp
  also have "\<dots> \<le> ?d * r"
    using d d0 r by (intro mult_mono) simp_all
  finally have "fl (ulp v) \<le> fl (?d * r)" by (rule fl_mono)
  then have "ulp v \<le> js_mul ?d r" by (simp add: js_mul_def)
  then have "fl (v + ulp v) \<le> fl (v + js_mul ?d r)" by (intro fl_mono) simp
  then have "v + ulp v \<le> ease t r v"
    using fl_succ[OF v] by (simp add: ease_def js_add_def)
  then show ?thesis using ulp_gt0[of v] by linarith
qed

lemma ease_moves_down:
  assumes v: "is_double v" and far: "t \<le> v - 16 * ulp v" and r: "1 / 16 \<le> r"
  shows "ease t r v < v"
proof -
  have "- v < ease (- t) r (- v)"
    using v far r by (intro ease_moves_up) (simp_all add: is_double_minus)
  then show ?thesis by (simp add: ease_minus)
qed

lemma rte_unique:
  assumes "\<bar>q - of_int n\<bar> < 1 / 2"
  shows "roundTiesToEven q = n"
proof -
  have "\<bar>of_int (roundTiesToEven q) - of_int n :: rat\<bar> < 1"
    using rte_error[of q] assms by linarith
  then have "\<bar>(of_int (roundTiesToEven q - n) :: rat)\<bar> < of_int 1"
    by simp
  then have "\<bar>roundTiesToEven q - n\<bar> < 1"
    by (simp only: of_int_less_iff flip: of_int_abs)
  then show ?thesis by simp
qed

lemma round_fmt_eqI:
  assumes "2 powi e \<le> \<bar>x\<bar>" and "\<bar>x\<bar> < 2 powi (e + 1)" and "emin \<le> e"
    and "\<bar>x / 2 powi (e - (int p - 1)) - of_int n\<bar> < 1 / 2"
    and "y = of_int n * 2 powi (e - (int p - 1))"
  shows "round_fmt p emin x = y"
proof -
  have "binade x = e" using assms(1,2) by (rule binade_unique)
  then have u: "ulp_fmt p emin x = 2 powi (e - (int p - 1))"
    using assms(3) by (simp add: ulp_fmt_def)
  have "roundTiesToEven (x / ulp_fmt p emin x) = n"
    unfolding u using assms(4) by (rule rte_unique)
  then show ?thesis by (simp add: round_fmt_def u assms(5))
qed

lemma fl_eqI:
  assumes "2 powi e \<le> \<bar>x\<bar>" and "\<bar>x\<bar> < 2 powi (e + 1)" and "- 1022 \<le> e"
    and "\<bar>x / 2 powi (e - 52) - of_int n\<bar> < 1 / 2"
    and "y = of_int n * 2 powi (e - 52)"
  shows "fl x = y"
  unfolding fl_def using assms by (intro round_fmt_eqI[where e = e and n = n]) simp_all

lemma rte_tie:
  assumes "q = of_int n + 1 / 2 \<or> q = of_int n - 1 / 2" and "even n"
  shows "roundTiesToEven q = n"
  using assms(1)
proof
  assume q: "q = of_int n + 1 / 2"
  have "\<lfloor>q\<rfloor> = n" unfolding q by (simp add: floor_eq_iff)
  then show ?thesis using assms(2) by (simp add: roundTiesToEven_def Let_def q)
next
  assume q: "q = of_int n - 1 / 2"
  have "\<lfloor>q\<rfloor> = n - 1" unfolding q by (simp add: floor_eq_iff)
  then show ?thesis using assms(2) by (simp add: roundTiesToEven_def Let_def q)
qed

lemma fl_tieI:
  assumes "2 powi e \<le> \<bar>x\<bar>" and "\<bar>x\<bar> < 2 powi (e + 1)" and "- 1022 \<le> e"
    and "x / 2 powi (e - 52) = of_int n + 1 / 2 \<or> x / 2 powi (e - 52) = of_int n - 1 / 2"
    and "even n"
    and "y = of_int n * 2 powi (e - 52)"
  shows "fl x = y"
proof -
  have "binade x = e" using assms(1,2) by (rule binade_unique)
  then have u: "ulp_fmt 53 (- 1022) x = 2 powi (e - 52)"
    using assms(3) by (simp add: ulp_fmt_def)
  have "roundTiesToEven (x / ulp_fmt 53 (- 1022) x) = n"
    unfolding u using assms(4,5) by (rule rte_tie)
  then show ?thesis by (simp add: fl_def round_fmt_def u assms(6))
qed

section \<open>The literals of the source\<close>

lemma lit_values:
  "lit_0_1 = 3602879701896397 / 2 ^ 55"
  "lit_0_4 = 3602879701896397 / 2 ^ 53"
  "lit_0_8 = 3602879701896397 / 2 ^ 52"
  "lit_0_5 = 1 / 2 ^ 1"
  "lit_0_3 = 5404319552844595 / 2 ^ 54"
  "lit_0_2 = 3602879701896397 / 2 ^ 54"
  "lit_0_001 = 1152921504606847 / 2 ^ 60"
  "lit_0_002 = 1152921504606847 / 2 ^ 59"
  "lit_0_008 = 1152921504606847 / 2 ^ 57"
  "lit_0_7 = 3152519739159347 / 2 ^ 52"
  "lit_0_12 = 1080863910568919 / 2 ^ 53"
  "lit_0_9 = 8106479329266893 / 2 ^ 53"
  "lit_0_6 = 5404319552844595 / 2 ^ 53"
proof -
  show "lit_0_1 = 3602879701896397 / 2 ^ 55"
    unfolding lit_0_1_def by (rule fl_eqI[where e = "-4" and n = "7205759403792794"]) simp_all
  show "lit_0_4 = 3602879701896397 / 2 ^ 53"
    unfolding lit_0_4_def by (rule fl_eqI[where e = "-2" and n = "7205759403792794"]) simp_all
  show "lit_0_8 = 3602879701896397 / 2 ^ 52"
    unfolding lit_0_8_def by (rule fl_eqI[where e = "-1" and n = "7205759403792794"]) simp_all
  show "lit_0_5 = 1 / 2 ^ 1"
    unfolding lit_0_5_def by (rule fl_eqI[where e = "-1" and n = "4503599627370496"]) simp_all
  show "lit_0_3 = 5404319552844595 / 2 ^ 54"
    unfolding lit_0_3_def by (rule fl_eqI[where e = "-2" and n = "5404319552844595"]) simp_all
  show "lit_0_2 = 3602879701896397 / 2 ^ 54"
    unfolding lit_0_2_def by (rule fl_eqI[where e = "-3" and n = "7205759403792794"]) simp_all
  show "lit_0_001 = 1152921504606847 / 2 ^ 60"
    unfolding lit_0_001_def by (rule fl_eqI[where e = "-10" and n = "4611686018427388"]) simp_all
  show "lit_0_002 = 1152921504606847 / 2 ^ 59"
    unfolding lit_0_002_def by (rule fl_eqI[where e = "-9" and n = "4611686018427388"]) simp_all
  show "lit_0_008 = 1152921504606847 / 2 ^ 57"
    unfolding lit_0_008_def by (rule fl_eqI[where e = "-7" and n = "4611686018427388"]) simp_all
  show "lit_0_7 = 3152519739159347 / 2 ^ 52"
    unfolding lit_0_7_def by (rule fl_eqI[where e = "-1" and n = "6305039478318694"]) simp_all
  show "lit_0_12 = 1080863910568919 / 2 ^ 53"
    unfolding lit_0_12_def by (rule fl_eqI[where e = "-4" and n = "8646911284551352"]) simp_all
  show "lit_0_9 = 8106479329266893 / 2 ^ 53"
    unfolding lit_0_9_def by (rule fl_eqI[where e = "-1" and n = "8106479329266893"]) simp_all
  show "lit_0_6 = 5404319552844595 / 2 ^ 53"
    unfolding lit_0_6_def by (rule fl_eqI[where e = "-1" and n = "5404319552844595"]) simp_all
qed

lemma press_literals:
  "lit_0_65 = 5854679515581645 / 2 ^ 53"
  "lit_0_15 = 5404319552844595 / 2 ^ 55"
  "lit_0_03 = 1080863910568919 / 2 ^ 55"
  "lit_0_04 = 5764607523034235 / 2 ^ 57"
  "lit_0_02 = 5764607523034235 / 2 ^ 58"
  "lit_0_005 = 5764607523034235 / 2 ^ 60"
proof -
  show "lit_0_65 = 5854679515581645 / 2 ^ 53"
    unfolding lit_0_65_def by (rule fl_eqI[where e = "-1" and n = "5854679515581645"]) simp_all
  show "lit_0_15 = 5404319552844595 / 2 ^ 55"
    unfolding lit_0_15_def by (rule fl_eqI[where e = "-3" and n = "5404319552844595"]) simp_all
  show "lit_0_03 = 1080863910568919 / 2 ^ 55"
    unfolding lit_0_03_def by (rule fl_eqI[where e = "-6" and n = "8646911284551352"]) simp_all
  show "lit_0_04 = 5764607523034235 / 2 ^ 57"
    unfolding lit_0_04_def by (rule fl_eqI[where e = "-5" and n = "5764607523034235"]) simp_all
  show "lit_0_02 = 5764607523034235 / 2 ^ 58"
    unfolding lit_0_02_def by (rule fl_eqI[where e = "-6" and n = "5764607523034235"]) simp_all
  show "lit_0_005 = 5764607523034235 / 2 ^ 60"
    unfolding lit_0_005_def by (rule fl_eqI[where e = "-8" and n = "5764607523034235"]) simp_all
qed

lemma rates:
  "0 \<le> lit_0_1" "lit_0_1 \<le> 1 / 4" "1 / 16 \<le> lit_0_1"
  "0 \<le> lit_0_12" "lit_0_12 \<le> 1 / 4" "1 / 16 \<le> lit_0_12"
  "0 \<le> lit_0_15" "lit_0_15 \<le> 1 / 4" "1 / 16 \<le> lit_0_15"
  by (simp_all add: lit_values press_literals)

lemma volumes: "lit_0_3 < lit_0_7"
  by (simp add: lit_values)

section \<open>The press state machine\<close>

lemma run_Nil [simp]: "run [] s = s"
  by (simp add: run_def)

lemma run_Cons [simp]: "run (e # es) s = run es (step e s)"
  by (simp add: run_def)

lemma run_append: "run (es @ fs) s = run fs (run es s)"
  by (simp add: run_def)

lemma render_fields [simp]:
  "isPressed (render s) = pressState s" "pressState (render s) = pressState s"
  "clock (render s) = clock s" "timers (render s) = timers s"
  "onClick_calls (render s) = onClick_calls s" "sound (render s) = sound s"
  "group (render s) = group s" "shadowRef (render s) = shadowRef s"
  by (simp_all add: render_def)

lemma render_synced: "isPressed s = pressState s \<Longrightarrow> render s = s"
  by (simp add: render_def)

lemma pending_releases_render [simp]: "pending_releases (render s) = pending_releases s"
  by (simp add: pending_releases_def)

lemma handleClick_pressed: "isPressed s \<Longrightarrow> handleClick s = s"
  by (simp add: handleClick_def)

lemma handleClick_fields:
  "isPressed (handleClick s) = isPressed s" "clock (handleClick s) = clock s"
  "group (handleClick s) = group s" "shadowRef (handleClick s) = shadowRef s"
  by (simp_all add: handleClick_def Let_def split: option.splits)

lemma handleClick_idle:
  assumes "\<not> isPressed s"
  shows "pressState (handleClick s)"
    and "onClick_calls (handleClick s) = onClick_calls s + 1"
    and "pending_releases (handleClick s) =
           pending_releases s @ [\<lparr>due = clock s + 200, action = Release\<rparr>]"
  using assms
  by (simp_all add: handleClick_def Let_def pending_releases_def split: option.splits)

lemma dispatch_pressed: "isPressed s \<Longrightarrow> dispatch hs s = s"
  by (induction hs s rule: dispatch.induct) (simp_all add: handleClick_pressed)

lemma dispatch_isPressed: "isPressed (dispatch hs s) = isPressed s"
  by (induction hs s rule: dispatch.induct) (simp_all add: handleClick_fields)

lemma dispatch_clock: "clock (dispatch hs s) = clock s"
  by (induction hs s rule: dispatch.induct) (simp_all add: handleClick_fields)

lemma dispatch_group: "group (dispatch hs s) = group s"
  by (induction hs s rule: dispatch.induct) (simp_all add: handleClick_fields)

lemma calls_pos: "hs \<noteq> [] \<Longrightarrow> 0 < calls hs"
  by (induction hs rule: calls.induct) simp_all

lemma dispatch_idle:
  assumes "\<not> isPressed s"
  shows "pending_releases (dispatch hs s) =
           pending_releases s @ replicate (calls hs) \<lparr>due = clock s + 200, action = Release\<rparr> \<and>
         onClick_calls (dispatch hs s) = onClick_calls s + calls hs \<and>
         pressState (dispatch hs s) = (pressState s \<or> hs \<noteq> [])"
  using assms
proof (induction hs s rule: dispatch.induct)
  case (1 s)
  then show ?case by simp
next
  case (2 hs s)
  have a: "\<not> isPressed (handleClick s)"
    using "2.prems" by (simp add: handleClick_fields)
  show ?case
    using "2.IH"[OF a] "2.prems"
    by (simp add: handleClick_idle handleClick_fields replicate_app_Cons_same)
next
  case (3 hs s)
  then show ?case by (simp add: handleClick_idle)
qed

lemma handleClick_keeps_pressed: "pressState s \<Longrightarrow> pressState (handleClick s)"
  by (simp add: handleClick_def Let_def split: option.splits)

lemma dispatch_keeps_pressed: "pressState s \<Longrightarrow> pressState (dispatch hs s)"
  by (induction hs s rule: dispatch.induct) (simp_all add: handleClick_keeps_pressed)

lemma fold_timer_fields:
  "onClick_calls (fold (\<lambda>r. run_timer (action r)) rs s) = onClick_calls s"
  "clock (fold (\<lambda>r. run_timer (action r)) rs s) = clock s"
  "timers (fold (\<lambda>r. run_timer (action r)) rs s) = timers s"
  "isPressed (fold (\<lambda>r. run_timer (action r)) rs s) = isPressed s"
  "group (fold (\<lambda>r. run_timer (action r)) rs s) = group s"
proof (induction rs arbitrary: s)
  case Nil
  {
    case 1 show ?case by simp
  next
    case 2 show ?case by simp
  next
    case 3 show ?case by simp
  next
    case 4 show ?case by simp
  next
    case 5 show ?case by simp
  }
next
  case (Cons r rs)
  {
    case 1 show ?case by (cases "action r") (simp_all add: Cons.IH split: option.splits)
  next
    case 2 show ?case by (cases "action r") (simp_all add: Cons.IH split: option.splits)
  next
    case 3 show ?case by (cases "action r") (simp_all add: Cons.IH split: option.splits)
  next
    case 4 show ?case by (cases "action r") (simp_all add: Cons.IH split: option.splits)
  next
    case 5 show ?case by (cases "action r") (simp_all add: Cons.IH split: option.splits)
  }
qed

lemma fold_timer_pressState:
  "pressState (fold (\<lambda>r. run_timer (action r)) rs s) =
     (pressState s \<and> (\<forall>r \<in> set rs. action r \<noteq> Release))"
proof (induction rs arbitrary: s)
  case Nil
  show ?case by simp
next
  case (Cons r rs)
  show ?case
    by (cases "action r") (auto simp add: Cons.IH split: option.splits)
qed

lemma elapse_fields:
  "onClick_calls (elapse d s) = onClick_calls s"
  "clock (elapse d s) = clock s + d"
  "timers (elapse d s) = filter (\<lambda>r. \<not> due r \<le> clock s + d) (timers s)"
  "isPressed (elapse d s) = isPressed s"
  "group (elapse d s) = group s"
  by (simp_all add: elapse_def Let_def fold_timer_fields)

lemma elapse_pressState:
  "pressState (elapse d s) =
     (pressState s \<and> (\<forall>r \<in> set (pending_releases s). \<not> due r \<le> clock s + d))"
  by (auto simp add: elapse_def Let_def fold_timer_pressState pending_releases_def)

lemma pending_releases_elapse:
  "pending_releases (elapse d s) = filter (\<lambda>r. \<not> due r \<le> clock s + d) (pending_releases s)"
  by (simp add: pending_releases_def elapse_fields conj_commute)

lemma useFrame_fields:
  "isPressed (useFrame s) = isPressed s" "pressState (useFrame s) = pressState s"
  "timers (useFrame s) = timers s" "clock (useFrame s) = clock s"
  "onClick_calls (useFrame s) = onClick_calls s" "sound (useFrame s) = sound s"
  by (simp_all add: useFrame_def split: option.splits)

lemma step_clock: "clock (step e s) = clock s + elapsed [e]"
  by (cases e) (simp_all add: dispatch_clock elapse_fields useFrame_fields)

lemma run_clock: "clock (run es s) = clock s + elapsed es"
proof (induction es arbitrary: s)
  case Nil
  show ?case by simp
next
  case (Cons e es)
  show ?case by (cases e) (simp_all add: Cons.IH dispatch_clock elapse_fields useFrame_fields)
qed

lemma click_held:
  assumes "\<not> isPressed s" and "pending_releases s = []" and "hs \<noteq> []"
  shows "held (calls hs) (clock s + 200) (step (Click hs) s)"
  using dispatch_idle[OF assms(1), of hs] assms(2,3)
  by (simp add: held_def dispatch_clock calls_pos)

lemma held_step:
  assumes "held n T s" and "clock s + elapsed [e] < T"
  shows "held n T (step e s)"
proof (cases e)
  case (Click hs)
  then show ?thesis using assms by (simp add: held_def dispatch_pressed)
next
  case Frame
  then show ?thesis using assms by (simp add: held_def pending_releases_def useFrame_fields)
next
  case (Elapse d)
  then show ?thesis
    using assms by (simp add: held_def pending_releases_elapse elapse_pressState elapse_fields)
next
  case SoundEnded
  then show ?thesis using assms by (simp add: held_def pending_releases_def)
next
  case SoundLoaded
  then show ?thesis using assms by (simp add: held_def pending_releases_def)
next
  case (SoundError random sampleRate)
  then show ?thesis using assms by (simp add: held_def pending_releases_def)
qed

lemma held_run:
  assumes "held n T s" and "clock s + elapsed es < T"
  shows "held n T (run es s)"
  using assms
proof (induction es arbitrary: s)
  case Nil
  then show ?case by simp
next
  case (Cons e es)
  have a: "elapsed (e # es) = elapsed [e] + elapsed es" by (cases e) simp_all
  have "held n T (step e s)" using Cons.prems a by (intro held_step) simp_all
  moreover have "clock (step e s) + elapsed es < T"
    using Cons.prems a by (simp add: step_clock)
  ultimately show ?case by (simp add: Cons.IH)
qed

lemma held_release:
  assumes "held n T s" and "T \<le> clock s + d"
  shows "\<not> pressState (step (Elapse d) s)" and "\<not> isPressed (step (Elapse d) s)"
    and "pending_releases (step (Elapse d) s) = []"
  using assms by (simp_all add: held_def elapse_pressState pending_releases_elapse)

lemma leave_pressed:
  assumes "pressState s" and "\<not> pressState (step e s)"
  shows "\<exists>d. e = Elapse d \<and> (\<exists>r \<in> set (pending_releases s). due r \<le> clock s + d)"
proof (cases e)
  case (Click hs)
  then show ?thesis using assms by (simp add: dispatch_keeps_pressed)
next
  case (Elapse d)
  then show ?thesis using assms by (auto simp add: elapse_pressState)
qed (use assms in \<open>simp_all add: useFrame_fields\<close>)

lemma press_inv_step: "press_inv s \<Longrightarrow> press_inv (step e s)"
proof (cases "pressState s")
  case True
  assume "press_inv s"
  then obtain n T where h: "held n T s" using True by (auto simp add: press_inv_def)
  show ?thesis
  proof (cases "clock s + elapsed [e] < T")
    case True
    then have "held n T (step e s)" using h by (rule held_step[rotated])
    then show ?thesis by (auto simp add: press_inv_def held_def)
  next
    case False
    then obtain d where e: "e = Elapse d" using h by (cases e) (simp_all add: held_def)
    then show ?thesis using held_release[OF h, of d] False by (simp add: press_inv_def)
  qed
next
  case False
  assume i: "press_inv s"
  then have r: "pending_releases s = []" and p: "\<not> isPressed s"
    using False by (simp_all add: press_inv_def)
  show ?thesis
  proof (cases e)
    case (Click hs)
    show ?thesis
    proof (cases "hs = []")
      case True
      then show ?thesis using Click i p False by (simp add: render_synced)
    next
      case False
      then show ?thesis
        using Click click_held[OF p r False] by (auto simp add: press_inv_def held_def)
    qed
  next
    case (Elapse d)
    then show ?thesis
      using False r by (simp add: press_inv_def elapse_pressState pending_releases_elapse)
  qed (use False r p in \<open>simp_all add: press_inv_def pending_releases_def useFrame_fields\<close>)
qed

lemma press_inv_run: "press_inv s \<Longrightarrow> press_inv (run es s)"
  by (induction es arbitrary: s) (simp_all add: press_inv_step)

lemma press_inv_mounted: "press_inv (mounted nodes)"
  by (simp add: press_inv_def mounted_def pending_releases_def)


lemma three_clicks:
  assumes "d1 + d2 \<le> 50"
  shows "onClick_calls (run [Click [MeshOnClick], Elapse d1, Click hs, Elapse d2, Click hs']
            (mounted nodes)) = 1
    \<and> pending_releases (run [Click [MeshOnClick], Elapse d1, Click hs, Elapse d2, Click hs']
            (mounted nodes)) = [\<lparr>due = 200, action = Release\<rparr>]"
proof -
  let ?s1 = "step (Click [MeshOnClick]) (mounted nodes)"
  have m: "\<not> isPressed (mounted nodes)" "pending_releases (mounted nodes) = []"
    "clock (mounted nodes) = 0" "onClick_calls (mounted nodes) = 0"
    by (simp_all add: mounted_def pending_releases_def)
  have h1: "held 1 200 ?s1" using click_held[OF m(1,2), of "[MeshOnClick]"] by (simp add: m)
  have h2: "held 1 200 (run [Elapse d1] ?s1)"
    using h1 assms by (intro held_run) (simp_all add: handleClick_fields m)
  have h4: "held 1 200 (run [Elapse d1, Click hs, Elapse d2] ?s1)"
    using h1 assms by (intro held_run) (simp_all add: handleClick_fields m)
  have p2: "dispatch hs (run [Elapse d1] ?s1) = run [Elapse d1] ?s1"
    using h2 by (intro dispatch_pressed) (simp add: held_def)
  have p4: "dispatch hs' (run [Elapse d1, Click hs, Elapse d2] ?s1)
      = run [Elapse d1, Click hs, Elapse d2] ?s1"
    using h4 by (intro dispatch_pressed) (simp add: held_def)
  have e: "run [Click [MeshOnClick], Elapse d1, Click hs, Elapse d2, Click hs'] (mounted nodes)
      = render (dispatch hs' (run [Elapse d1, Click hs, Elapse d2] ?s1))"
    by simp
  have c: "onClick_calls (run [Elapse d1, Click hs, Elapse d2] ?s1) = 1"
    using p2 by (simp add: elapse_fields handleClick_idle m)
  have r: "pending_releases (run [Elapse d1, Click hs, Elapse d2] ?s1)
      = [\<lparr>due = 200, action = Release\<rparr>]"
    using p2 assms
    by (simp add: pending_releases_elapse elapse_fields handleClick_idle handleClick_fields m)
  show ?thesis
    unfolding e p4 using c r by simp
qed

section \<open>Materials and rendering\<close>

lemma customize_other_class: "\<not> isMeshStandardMaterial m \<Longrightarrow> customize t key m = m"
  by (simp add: customize_def)

lemma customize_letter:
  "isMeshStandardMaterial m \<Longrightarrow> isLetterMaterial key \<Longrightarrow>
     customize t key m =
       m\<lparr>color := 0xffffff, roughness := lit_0_1, metalness := lit_0_2, bumpMap := None\<rparr>"
  by (simp add: customize_def)

lemma customize_body:
  "isMeshStandardMaterial m \<Longrightarrow> \<not> isLetterMaterial key \<Longrightarrow>
     customize t key m =
       m\<lparr>color := keycapColor,
         roughness := finish_roughness (finishOf t),
         metalness := finish_metalness (finishOf t),
         bumpMap := Some (loadedBumpMap t),
         bumpScale := finish_bumpScale (finishOf t)\<rparr>"
  by (simp add: customize_def)

lemma body_tuple:
  assumes "isMeshStandardMaterial m" and "\<not> isLetterMaterial key"
  shows "finishTuple (customize glossy key m) = (lit_0_1, lit_0_5, lit_0_001, Some (3, 3))"
    and "finishTuple (customize carbon key m) = (lit_0_4, lit_0_3, lit_0_008, Some (6, 6))"
    and "finishTuple (customize matte key m) = (lit_0_8, lit_0_1, lit_0_002, Some (3, 3))"
  using assms by (simp_all add: customize_body finishTuple_def loadedBumpMap_def)

lemma body_tuple_distinct:
  assumes "isMeshStandardMaterial m" and "\<not> isLetterMaterial key"
    and "isMeshStandardMaterial m'" and "\<not> isLetterMaterial key'"
    and "t \<noteq> t'"
  shows "finishTuple (customize t key m) \<noteq> finishTuple (customize t' key' m')"
  using assms(5)
  by (cases t; cases t')
     (simp_all add: body_tuple[OF assms(1,2)] body_tuple[OF assms(3,4)] lit_values)

lemma isLetterMaterial_Cube: "isLetterMaterial ''Cube''"
  by code_simp

lemma isLetterMaterial_Body: "\<not> isLetterMaterial ''Body''"
  by code_simp

lemma elements_cases:
  "(\<exists>keys. elements materials ns = Inr keys) \<or> elements materials ns = Inl TypeError"
proof (cases "elements materials ns")
  case (Inl e)
  then show ?thesis by (cases e) simp
next
  case (Inr keys)
  then show ?thesis by simp
qed

lemma elements_throws:
  "(elements materials ns = Inl TypeError) =
     (materials = None \<and> (\<exists>key. (key, MeshNode False) \<in> set ns))"
proof (induction ns)
  case Nil
  show ?case by simp
next
  case (Cons n ns)
  obtain key x where n: "n = (key, x)" by (cases n)
  show ?case
  proof (cases x)
    case (MeshNode own)
    then show ?thesis
      using Cons.IH n
      by (cases own; cases materials; cases "elements materials ns")
         (auto split: sum.splits)
  next
    case ObjectNode
    then show ?thesis
      using Cons.IH n by (cases "elements materials ns") (auto split: sum.splits)
  qed
qed


lemma KeycapModel_throws:
  "(KeycapModel nodes materials = Inl TypeError) =
     (\<exists>ns. nodes = Some ns \<and> materials = None \<and> (\<exists>key. (key, MeshNode False) \<in> set ns))"
proof (cases nodes)
  case None
  then show ?thesis by (simp add: KeycapModel_def)
next
  case (Some ns)
  have "(KeycapModel nodes materials = Inl TypeError) = (elements materials ns = Inl TypeError)"
    using Some by (simp add: KeycapModel_def split: sum.splits)
  then show ?thesis using Some by (simp add: elements_throws)
qed

section \<open>The pressed frames from the rest pose\<close>

lemma funpow_fixed: "f x = x \<Longrightarrow> (f ^^ n) x = x"
  by (induction n) simp_all

lemma funpow_from:
  assumes "k \<le> n"
  shows "(f ^^ n) x = (f ^^ (n - k)) ((f ^^ k) x)"
proof -
  have "(f ^^ ((n - k) + k)) x = (f ^^ (n - k)) ((f ^^ k) x)"
    by (simp add: funpow_add)
  then show ?thesis using assms by simp
qed

lemma funpow_pred: "0 < n \<Longrightarrow> (f ^^ n) x = f ((f ^^ (n - 1)) x)"
  by (cases n) simp_all

lemma first_frames:
  "n < 9 \<Longrightarrow> n \<in> {0, 1, 2, 3, 4, 5, 6, 7, 8 :: nat}"
  "n < 8 \<Longrightarrow> n \<in> {0, 1, 2, 3, 4, 5, 6, 7 :: nat}"
  "n < 6 \<Longrightarrow> n \<in> {0, 1, 2, 3, 4, 5 :: nat}"
  by auto

lemma scaleStep_values:
  "scaleStep 1 = 1080863910568919 / 2 ^ 50"
  "scaleStep (1080863910568919 / 2 ^ 50) = 517913957147607 / 2 ^ 49"
  "scaleStep (517913957147607 / 2 ^ 49) = 990791918021509 / 2 ^ 50"
  "scaleStep (990791918021509 / 2 ^ 50) = 236438980436951 / 2 ^ 48"
  "scaleStep (236438980436951 / 2 ^ 48) = 900719925474099 / 2 ^ 50"
  "scaleStep (900719925474099 / 2 ^ 50) = 427841964600197 / 2 ^ 49"
  "scaleStep (427841964600197 / 2 ^ 49) = 810647932926689 / 2 ^ 50"
  "scaleStep (810647932926689 / 2 ^ 50) = 95701492081623 / 2 ^ 47"
  "scaleStep (95701492081623 / 2 ^ 47) = 5854679515581645 / 2 ^ 53"
  "scaleStep (5854679515581645 / 2 ^ 53) = 5854679515581645 / 2 ^ 53"
proof -
  have f0: "fl (1 - 5764607523034235 / 2 ^ 57) = 1080863910568919 / 2 ^ 50"
    by (rule fl_eqI[where e = "-1" and n = "8646911284551352"]) simp_all
  show "scaleStep 1 = 1080863910568919 / 2 ^ 50"
    unfolding scaleStep_def js_sub_def press_literals f0 by simp
  have f1: "fl (1080863910568919 / 2 ^ 50 - 5764607523034235 / 2 ^ 57) = 517913957147607 / 2 ^ 49"
    by (rule fl_eqI[where e = "-1" and n = "8286623314361712"]) simp_all
  show "scaleStep (1080863910568919 / 2 ^ 50) = 517913957147607 / 2 ^ 49"
    unfolding scaleStep_def js_sub_def press_literals f1 by simp
  have f2: "fl (517913957147607 / 2 ^ 49 - 5764607523034235 / 2 ^ 57) = 990791918021509 / 2 ^ 50"
    by (rule fl_eqI[where e = "-1" and n = "7926335344172072"]) simp_all
  show "scaleStep (517913957147607 / 2 ^ 49) = 990791918021509 / 2 ^ 50"
    unfolding scaleStep_def js_sub_def press_literals f2 by simp
  have f3: "fl (990791918021509 / 2 ^ 50 - 5764607523034235 / 2 ^ 57) = 236438980436951 / 2 ^ 48"
    by (rule fl_eqI[where e = "-1" and n = "7566047373982432"]) simp_all
  show "scaleStep (990791918021509 / 2 ^ 50) = 236438980436951 / 2 ^ 48"
    unfolding scaleStep_def js_sub_def press_literals f3 by simp
  have f4: "fl (236438980436951 / 2 ^ 48 - 5764607523034235 / 2 ^ 57) = 900719925474099 / 2 ^ 50"
    by (rule fl_eqI[where e = "-1" and n = "7205759403792792"]) simp_all
  show "scaleStep (236438980436951 / 2 ^ 48) = 900719925474099 / 2 ^ 50"
    unfolding scaleStep_def js_sub_def press_literals f4 by simp
  have f5: "fl (900719925474099 / 2 ^ 50 - 5764607523034235 / 2 ^ 57) = 427841964600197 / 2 ^ 49"
    by (rule fl_eqI[where e = "-1" and n = "6845471433603152"]) simp_all
  show "scaleStep (900719925474099 / 2 ^ 50) = 427841964600197 / 2 ^ 49"
    unfolding scaleStep_def js_sub_def press_literals f5 by simp
  have f6: "fl (427841964600197 / 2 ^ 49 - 5764607523034235 / 2 ^ 57) = 810647932926689 / 2 ^ 50"
    by (rule fl_eqI[where e = "-1" and n = "6485183463413512"]) simp_all
  show "scaleStep (427841964600197 / 2 ^ 49) = 810647932926689 / 2 ^ 50"
    unfolding scaleStep_def js_sub_def press_literals f6 by simp
  have f7: "fl (810647932926689 / 2 ^ 50 - 5764607523034235 / 2 ^ 57) = 95701492081623 / 2 ^ 47"
    by (rule fl_eqI[where e = "-1" and n = "6124895493223872"]) simp_all
  show "scaleStep (810647932926689 / 2 ^ 50) = 95701492081623 / 2 ^ 47"
    unfolding scaleStep_def js_sub_def press_literals f7 by simp
  have f8: "fl (95701492081623 / 2 ^ 47 - 5764607523034235 / 2 ^ 57) = 720575940379279 / 2 ^ 50"
    by (rule fl_eqI[where e = "-1" and n = "5764607523034232"]) simp_all
  show "scaleStep (95701492081623 / 2 ^ 47) = 5854679515581645 / 2 ^ 53"
    unfolding scaleStep_def js_sub_def press_literals f8 by simp
  have f9: "fl (5854679515581645 / 2 ^ 53 - 5764607523034235 / 2 ^ 57) = 5494391545392005 / 2 ^ 53"
    by (rule fl_eqI[where e = "-1" and n = "5494391545392005"]) simp_all
  show "scaleStep (5854679515581645 / 2 ^ 53) = 5854679515581645 / 2 ^ 53"
    unfolding scaleStep_def js_sub_def press_literals f9 by simp
qed

lemma scaleStep_trajectory:
  "(scaleStep ^^ 0) 1 = 1"
  "(scaleStep ^^ 1) 1 = 1080863910568919 / 2 ^ 50"
  "(scaleStep ^^ 2) 1 = 517913957147607 / 2 ^ 49"
  "(scaleStep ^^ 3) 1 = 990791918021509 / 2 ^ 50"
  "(scaleStep ^^ 4) 1 = 236438980436951 / 2 ^ 48"
  "(scaleStep ^^ 5) 1 = 900719925474099 / 2 ^ 50"
  "(scaleStep ^^ 6) 1 = 427841964600197 / 2 ^ 49"
  "(scaleStep ^^ 7) 1 = 810647932926689 / 2 ^ 50"
  "(scaleStep ^^ 8) 1 = 95701492081623 / 2 ^ 47"
  "(scaleStep ^^ 9) 1 = 5854679515581645 / 2 ^ 53"
proof -
  show t0: "(scaleStep ^^ 0) 1 = 1" by simp
  have "(scaleStep ^^ 1) 1 = scaleStep ((scaleStep ^^ 0) 1)" using funpow_pred[of 1 scaleStep 1] by simp
  then show t1: "(scaleStep ^^ 1) 1 = 1080863910568919 / 2 ^ 50" by (simp only: t0 scaleStep_values)
  have "(scaleStep ^^ 2) 1 = scaleStep ((scaleStep ^^ 1) 1)" using funpow_pred[of 2 scaleStep 1] by simp
  then show t2: "(scaleStep ^^ 2) 1 = 517913957147607 / 2 ^ 49" by (simp only: t1 scaleStep_values)
  have "(scaleStep ^^ 3) 1 = scaleStep ((scaleStep ^^ 2) 1)" using funpow_pred[of 3 scaleStep 1] by simp
  then show t3: "(scaleStep ^^ 3) 1 = 990791918021509 / 2 ^ 50" by (simp only: t2 scaleStep_values)
  have "(scaleStep ^^ 4) 1 = scaleStep ((scaleStep ^^ 3) 1)" using funpow_pred[of 4 scaleStep 1] by simp
  then show t4: "(scaleStep ^^ 4) 1 = 236438980436951 / 2 ^ 48" by (simp only: t3 scaleStep_values)
  have "(scaleStep ^^ 5) 1 = scaleStep ((scaleStep ^^ 4) 1)" using funpow_pred[of 5 scaleStep 1] by simp
  then show t5: "(scaleStep ^^ 5) 1 = 900719925474099 / 2 ^ 50" by (simp only: t4 scaleStep_values)
  have "(scaleStep ^^ 6) 1 = scaleStep ((scaleStep ^^ 5) 1)" using funpow_pred[of 6 scaleStep 1] by simp
  then show t6: "(scaleStep ^^ 6) 1 = 427841964600197 / 2 ^ 49" by (simp only: t5 scaleStep_values)
  have "(scaleStep ^^ 7) 1 = scaleStep ((scaleStep ^^ 6) 1)" using funpow_pred[of 7 scaleStep 1] by simp
  then show t7: "(scaleStep ^^ 7) 1 = 810647932926689 / 2 ^ 50" by (simp only: t6 scaleStep_values)
  have "(scaleStep ^^ 8) 1 = scaleStep ((scaleStep ^^ 7) 1)" using funpow_pred[of 8 scaleStep 1] by simp
  then show t8: "(scaleStep ^^ 8) 1 = 95701492081623 / 2 ^ 47" by (simp only: t7 scaleStep_values)
  have "(scaleStep ^^ 9) 1 = scaleStep ((scaleStep ^^ 8) 1)" using funpow_pred[of 9 scaleStep 1] by simp
  then show t9: "(scaleStep ^^ 9) 1 = 5854679515581645 / 2 ^ 53" by (simp only: t8 scaleStep_values)
qed

lemma positionStep_values:
  "positionStep 0 = - (5764607523034235 / 2 ^ 58)"
  "positionStep (- (5764607523034235 / 2 ^ 58)) = - (5764607523034235 / 2 ^ 57)"
  "positionStep (- (5764607523034235 / 2 ^ 57)) = - (1080863910568919 / 2 ^ 54)"
  "positionStep (- (1080863910568919 / 2 ^ 54)) = - (5764607523034235 / 2 ^ 56)"
  "positionStep (- (5764607523034235 / 2 ^ 56)) = - (3602879701896397 / 2 ^ 55)"
  "positionStep (- (3602879701896397 / 2 ^ 55)) = - (8646911284551353 / 2 ^ 56)"
  "positionStep (- (8646911284551353 / 2 ^ 56)) = - (1261007895663739 / 2 ^ 53)"
  "positionStep (- (1261007895663739 / 2 ^ 53)) = - (5404319552844595 / 2 ^ 55)"
  "positionStep (- (5404319552844595 / 2 ^ 55)) = - (5404319552844595 / 2 ^ 55)"
proof -
  have f0: "fl (0 - 5764607523034235 / 2 ^ 58) = - (5764607523034235 / 2 ^ 58)"
    by (rule fl_eqI[where e = "-6" and n = "-5764607523034235"]) simp_all
  show "positionStep 0 = - (5764607523034235 / 2 ^ 58)"
    unfolding positionStep_def js_sub_def press_literals f0 by simp
  have f1: "fl ((- (5764607523034235 / 2 ^ 58)) - 5764607523034235 / 2 ^ 58) = - (5764607523034235 / 2 ^ 57)"
    by (rule fl_eqI[where e = "-5" and n = "-5764607523034235"]) simp_all
  show "positionStep (- (5764607523034235 / 2 ^ 58)) = - (5764607523034235 / 2 ^ 57)"
    unfolding positionStep_def js_sub_def press_literals f1 by simp
  have f2: "fl ((- (5764607523034235 / 2 ^ 57)) - 5764607523034235 / 2 ^ 58) = - (1080863910568919 / 2 ^ 54)"
    by (rule fl_tieI[where e = "-5" and n = "-8646911284551352"]) simp_all
  show "positionStep (- (5764607523034235 / 2 ^ 57)) = - (1080863910568919 / 2 ^ 54)"
    unfolding positionStep_def js_sub_def press_literals f2 by simp
  have f3: "fl ((- (1080863910568919 / 2 ^ 54)) - 5764607523034235 / 2 ^ 58) = - (5764607523034235 / 2 ^ 56)"
    by (rule fl_eqI[where e = "-4" and n = "-5764607523034235"]) simp_all
  show "positionStep (- (1080863910568919 / 2 ^ 54)) = - (5764607523034235 / 2 ^ 56)"
    unfolding positionStep_def js_sub_def press_literals f3 by simp
  have f4: "fl ((- (5764607523034235 / 2 ^ 56)) - 5764607523034235 / 2 ^ 58) = - (3602879701896397 / 2 ^ 55)"
    by (rule fl_eqI[where e = "-4" and n = "-7205759403792794"]) simp_all
  show "positionStep (- (5764607523034235 / 2 ^ 56)) = - (3602879701896397 / 2 ^ 55)"
    unfolding positionStep_def js_sub_def press_literals f4 by simp
  have f5: "fl ((- (3602879701896397 / 2 ^ 55)) - 5764607523034235 / 2 ^ 58) = - (8646911284551353 / 2 ^ 56)"
    by (rule fl_eqI[where e = "-4" and n = "-8646911284551353"]) simp_all
  show "positionStep (- (3602879701896397 / 2 ^ 55)) = - (8646911284551353 / 2 ^ 56)"
    unfolding positionStep_def js_sub_def press_literals f5 by simp
  have f6: "fl ((- (8646911284551353 / 2 ^ 56)) - 5764607523034235 / 2 ^ 58) = - (1261007895663739 / 2 ^ 53)"
    by (rule fl_eqI[where e = "-3" and n = "-5044031582654956"]) simp_all
  show "positionStep (- (8646911284551353 / 2 ^ 56)) = - (1261007895663739 / 2 ^ 53)"
    unfolding positionStep_def js_sub_def press_literals f6 by simp
  have f7: "fl ((- (1261007895663739 / 2 ^ 53)) - 5764607523034235 / 2 ^ 58) = - (5764607523034235 / 2 ^ 55)"
    by (rule fl_eqI[where e = "-3" and n = "-5764607523034235"]) simp_all
  show "positionStep (- (1261007895663739 / 2 ^ 53)) = - (5404319552844595 / 2 ^ 55)"
    unfolding positionStep_def js_sub_def press_literals f7 by simp
  have f8: "fl ((- (5404319552844595 / 2 ^ 55)) - 5764607523034235 / 2 ^ 58) = - (3062447746611937 / 2 ^ 54)"
    by (rule fl_eqI[where e = "-3" and n = "-6124895493223874"]) simp_all
  show "positionStep (- (5404319552844595 / 2 ^ 55)) = - (5404319552844595 / 2 ^ 55)"
    unfolding positionStep_def js_sub_def press_literals f8 by simp
qed

lemma positionStep_trajectory:
  "(positionStep ^^ 0) 0 = 0"
  "(positionStep ^^ 1) 0 = - (5764607523034235 / 2 ^ 58)"
  "(positionStep ^^ 2) 0 = - (5764607523034235 / 2 ^ 57)"
  "(positionStep ^^ 3) 0 = - (1080863910568919 / 2 ^ 54)"
  "(positionStep ^^ 4) 0 = - (5764607523034235 / 2 ^ 56)"
  "(positionStep ^^ 5) 0 = - (3602879701896397 / 2 ^ 55)"
  "(positionStep ^^ 6) 0 = - (8646911284551353 / 2 ^ 56)"
  "(positionStep ^^ 7) 0 = - (1261007895663739 / 2 ^ 53)"
  "(positionStep ^^ 8) 0 = - (5404319552844595 / 2 ^ 55)"
proof -
  show t0: "(positionStep ^^ 0) 0 = 0" by simp
  have "(positionStep ^^ 1) 0 = positionStep ((positionStep ^^ 0) 0)" using funpow_pred[of 1 positionStep 0] by simp
  then show t1: "(positionStep ^^ 1) 0 = - (5764607523034235 / 2 ^ 58)" by (simp only: t0 positionStep_values)
  have "(positionStep ^^ 2) 0 = positionStep ((positionStep ^^ 1) 0)" using funpow_pred[of 2 positionStep 0] by simp
  then show t2: "(positionStep ^^ 2) 0 = - (5764607523034235 / 2 ^ 57)" by (simp only: t1 positionStep_values)
  have "(positionStep ^^ 3) 0 = positionStep ((positionStep ^^ 2) 0)" using funpow_pred[of 3 positionStep 0] by simp
  then show t3: "(positionStep ^^ 3) 0 = - (1080863910568919 / 2 ^ 54)" by (simp only: t2 positionStep_values)
  have "(positionStep ^^ 4) 0 = positionStep ((positionStep ^^ 3) 0)" using funpow_pred[of 4 positionStep 0] by simp
  then show t4: "(positionStep ^^ 4) 0 = - (5764607523034235 / 2 ^ 56)" by (simp only: t3 positionStep_values)
  have "(positionStep ^^ 5) 0 = positionStep ((positionStep ^^ 4) 0)" using funpow_pred[of 5 positionStep 0] by simp
  then show t5: "(positionStep ^^ 5) 0 = - (3602879701896397 / 2 ^ 55)" by (simp only: t4 positionStep_values)
  have "(positionStep ^^ 6) 0 = positionStep ((positionStep ^^ 5) 0)" using funpow_pred[of 6 positionStep 0] by simp
  then show t6: "(positionStep ^^ 6) 0 = - (8646911284551353 / 2 ^ 56)" by (simp only: t5 positionStep_values)
  have "(positionStep ^^ 7) 0 = positionStep ((positionStep ^^ 6) 0)" using funpow_pred[of 7 positionStep 0] by simp
  then show t7: "(positionStep ^^ 7) 0 = - (1261007895663739 / 2 ^ 53)" by (simp only: t6 positionStep_values)
  have "(positionStep ^^ 8) 0 = positionStep ((positionStep ^^ 7) 0)" using funpow_pred[of 8 positionStep 0] by simp
  then show t8: "(positionStep ^^ 8) 0 = - (5404319552844595 / 2 ^ 55)" by (simp only: t7 positionStep_values)
qed

lemma rotationStep_values:
  "rotationStep 0 = 5764607523034235 / 2 ^ 60"
  "rotationStep (5764607523034235 / 2 ^ 60) = 5764607523034235 / 2 ^ 59"
  "rotationStep (5764607523034235 / 2 ^ 59) = 1080863910568919 / 2 ^ 56"
  "rotationStep (1080863910568919 / 2 ^ 56) = 5764607523034235 / 2 ^ 58"
  "rotationStep (5764607523034235 / 2 ^ 58) = 3602879701896397 / 2 ^ 57"
  "rotationStep (3602879701896397 / 2 ^ 57) = 1080863910568919 / 2 ^ 55"
  "rotationStep (1080863910568919 / 2 ^ 55) = 1080863910568919 / 2 ^ 55"
proof -
  have f0: "fl (0 + 5764607523034235 / 2 ^ 60) = 5764607523034235 / 2 ^ 60"
    by (rule fl_eqI[where e = "-8" and n = "5764607523034235"]) simp_all
  show "rotationStep 0 = 5764607523034235 / 2 ^ 60"
    unfolding rotationStep_def js_add_def press_literals f0 by simp
  have f1: "fl (5764607523034235 / 2 ^ 60 + 5764607523034235 / 2 ^ 60) = 5764607523034235 / 2 ^ 59"
    by (rule fl_eqI[where e = "-7" and n = "5764607523034235"]) simp_all
  show "rotationStep (5764607523034235 / 2 ^ 60) = 5764607523034235 / 2 ^ 59"
    unfolding rotationStep_def js_add_def press_literals f1 by simp
  have f2: "fl (5764607523034235 / 2 ^ 59 + 5764607523034235 / 2 ^ 60) = 1080863910568919 / 2 ^ 56"
    by (rule fl_tieI[where e = "-7" and n = "8646911284551352"]) simp_all
  show "rotationStep (5764607523034235 / 2 ^ 59) = 1080863910568919 / 2 ^ 56"
    unfolding rotationStep_def js_add_def press_literals f2 by simp
  have f3: "fl (1080863910568919 / 2 ^ 56 + 5764607523034235 / 2 ^ 60) = 5764607523034235 / 2 ^ 58"
    by (rule fl_eqI[where e = "-6" and n = "5764607523034235"]) simp_all
  show "rotationStep (1080863910568919 / 2 ^ 56) = 5764607523034235 / 2 ^ 58"
    unfolding rotationStep_def js_add_def press_literals f3 by simp
  have f4: "fl (5764607523034235 / 2 ^ 58 + 5764607523034235 / 2 ^ 60) = 3602879701896397 / 2 ^ 57"
    by (rule fl_eqI[where e = "-6" and n = "7205759403792794"]) simp_all
  show "rotationStep (5764607523034235 / 2 ^ 58) = 3602879701896397 / 2 ^ 57"
    unfolding rotationStep_def js_add_def press_literals f4 by simp
  have f5: "fl (3602879701896397 / 2 ^ 57 + 5764607523034235 / 2 ^ 60) = 8646911284551353 / 2 ^ 58"
    by (rule fl_eqI[where e = "-6" and n = "8646911284551353"]) simp_all
  show "rotationStep (3602879701896397 / 2 ^ 57) = 1080863910568919 / 2 ^ 55"
    unfolding rotationStep_def js_add_def press_literals f5 by simp
  have f6: "fl (1080863910568919 / 2 ^ 55 + 5764607523034235 / 2 ^ 60) = 5044031582654955 / 2 ^ 57"
    by (rule fl_eqI[where e = "-5" and n = "5044031582654955"]) simp_all
  show "rotationStep (1080863910568919 / 2 ^ 55) = 1080863910568919 / 2 ^ 55"
    unfolding rotationStep_def js_add_def press_literals f6 by simp
qed

lemma rotationStep_trajectory:
  "(rotationStep ^^ 0) 0 = 0"
  "(rotationStep ^^ 1) 0 = 5764607523034235 / 2 ^ 60"
  "(rotationStep ^^ 2) 0 = 5764607523034235 / 2 ^ 59"
  "(rotationStep ^^ 3) 0 = 1080863910568919 / 2 ^ 56"
  "(rotationStep ^^ 4) 0 = 5764607523034235 / 2 ^ 58"
  "(rotationStep ^^ 5) 0 = 3602879701896397 / 2 ^ 57"
  "(rotationStep ^^ 6) 0 = 1080863910568919 / 2 ^ 55"
proof -
  show t0: "(rotationStep ^^ 0) 0 = 0" by simp
  have "(rotationStep ^^ 1) 0 = rotationStep ((rotationStep ^^ 0) 0)" using funpow_pred[of 1 rotationStep 0] by simp
  then show t1: "(rotationStep ^^ 1) 0 = 5764607523034235 / 2 ^ 60" by (simp only: t0 rotationStep_values)
  have "(rotationStep ^^ 2) 0 = rotationStep ((rotationStep ^^ 1) 0)" using funpow_pred[of 2 rotationStep 0] by simp
  then show t2: "(rotationStep ^^ 2) 0 = 5764607523034235 / 2 ^ 59" by (simp only: t1 rotationStep_values)
  have "(rotationStep ^^ 3) 0 = rotationStep ((rotationStep ^^ 2) 0)" using funpow_pred[of 3 rotationStep 0] by simp
  then show t3: "(rotationStep ^^ 3) 0 = 1080863910568919 / 2 ^ 56" by (simp only: t2 rotationStep_values)
  have "(rotationStep ^^ 4) 0 = rotationStep ((rotationStep ^^ 3) 0)" using funpow_pred[of 4 rotationStep 0] by simp
  then show t4: "(rotationStep ^^ 4) 0 = 5764607523034235 / 2 ^ 58" by (simp only: t3 rotationStep_values)
  have "(rotationStep ^^ 5) 0 = rotationStep ((rotationStep ^^ 4) 0)" using funpow_pred[of 5 rotationStep 0] by simp
  then show t5: "(rotationStep ^^ 5) 0 = 3602879701896397 / 2 ^ 57" by (simp only: t4 rotationStep_values)
  have "(rotationStep ^^ 6) 0 = rotationStep ((rotationStep ^^ 5) 0)" using funpow_pred[of 6 rotationStep 0] by simp
  then show t6: "(rotationStep ^^ 6) 0 = 1080863910568919 / 2 ^ 55" by (simp only: t5 rotationStep_values)
qed

lemma scale_floor_reached:
  assumes "9 \<le> n"
  shows "(scaleStep ^^ n) 1 = lit_0_65"
proof -
  have "(scaleStep ^^ n) 1 = (scaleStep ^^ (n - 9)) ((scaleStep ^^ 9) 1)"
    using assms by (rule funpow_from)
  also have "\<dots> = (scaleStep ^^ (n - 9)) (5854679515581645 / 2 ^ 53)"
    by (simp only: scaleStep_trajectory)
  also have "\<dots> = 5854679515581645 / 2 ^ 53"
    by (rule funpow_fixed) (rule scaleStep_values)
  finally show ?thesis by (simp only: press_literals)
qed

lemma scale_ramp:
  "\<bar>(scaleStep ^^ n) 1 - max (1 - 4 / 100 * of_nat n) (65 / 100)\<bar> \<le> 1 / 2 ^ 50"
proof (cases "n < 9")
  case True
  then have "n \<in> {0, 1, 2, 3, 4, 5, 6, 7, 8}"
    by (rule first_frames)
  then show ?thesis
    using scaleStep_trajectory by (elim insertE emptyE) simp_all
next
  case False
  then have n: "9 \<le> n" by simp
  then have "(9::rat) \<le> of_nat n" by (metis of_nat_le_iff of_nat_numeral)
  then have "max (1 - 4 / 100 * of_nat n) (65 / 100) = (65 / 100 :: rat)" by simp
  then show ?thesis by (simp add: scale_floor_reached[OF n] press_literals)
qed


lemma position_floor_reached:
  assumes "8 \<le> n"
  shows "(positionStep ^^ n) 0 = - lit_0_15"
proof -
  have "(positionStep ^^ n) 0 = (positionStep ^^ (n - 8)) ((positionStep ^^ 8) 0)"
    using assms by (rule funpow_from)
  also have "\<dots> = (positionStep ^^ (n - 8)) (- (5404319552844595 / 2 ^ 55))"
    by (simp only: positionStep_trajectory)
  also have "\<dots> = - (5404319552844595 / 2 ^ 55)"
    by (rule funpow_fixed) (rule positionStep_values)
  finally show ?thesis by (simp only: press_literals)
qed

lemma position_ramp:
  "\<bar>(positionStep ^^ n) 0 - max (- (2 / 100 * of_nat n)) (- (15 / 100))\<bar> \<le> 1 / 2 ^ 50"
proof (cases "n < 8")
  case True
  then have "n \<in> {0, 1, 2, 3, 4, 5, 6, 7}"
    by (rule first_frames)
  then show ?thesis
    using positionStep_trajectory by (elim insertE emptyE) simp_all
next
  case False
  then have n: "8 \<le> n" by simp
  then have "(8::rat) \<le> of_nat n" by (metis of_nat_le_iff of_nat_numeral)
  then have "max (- (2 / 100 * of_nat n)) (- (15 / 100)) = (- (15 / 100) :: rat)" by simp
  then show ?thesis by (simp add: position_floor_reached[OF n] press_literals)
qed

lemma rotation_ceiling_reached:
  assumes "6 \<le> n"
  shows "(rotationStep ^^ n) 0 = lit_0_03"
proof -
  have "(rotationStep ^^ n) 0 = (rotationStep ^^ (n - 6)) ((rotationStep ^^ 6) 0)"
    using assms by (rule funpow_from)
  also have "\<dots> = (rotationStep ^^ (n - 6)) (1080863910568919 / 2 ^ 55)"
    by (simp only: rotationStep_trajectory)
  also have "\<dots> = 1080863910568919 / 2 ^ 55"
    by (rule funpow_fixed) (rule rotationStep_values)
  finally show ?thesis by (simp only: press_literals)
qed

lemma rotation_ramp:
  "\<bar>(rotationStep ^^ n) 0 - min (5 / 1000 * of_nat n) (3 / 100)\<bar> \<le> 1 / 2 ^ 50"
proof (cases "n < 6")
  case True
  then have "n \<in> {0, 1, 2, 3, 4, 5}"
    by (rule first_frames)
  then show ?thesis
    using rotationStep_trajectory by (elim insertE emptyE) simp_all
next
  case False
  then have n: "6 \<le> n" by simp
  then have "(6::rat) \<le> of_nat n" by (metis of_nat_le_iff of_nat_numeral)
  then have "min (5 / 1000 * of_nat n) (3 / 100) = (3 / 100 :: rat)" by simp
  then show ?thesis by (simp add: rotation_ceiling_reached[OF n] press_literals)
qed

lemma lit_double [simp]:
  "is_double lit_0_65" "is_double lit_0_15" "is_double lit_0_03" "is_double lit_0_4"
  by (simp_all add: lit_0_65_def lit_0_15_def lit_0_03_def lit_0_4_def)

lemma is_double_0 [simp]: "is_double 0"
  by (simp add: is_double_def)

lemma is_double_1 [simp]: "is_double 1"
  by (simp add: is_double_def)

lemma is_double_max: "is_double a \<Longrightarrow> is_double b \<Longrightarrow> is_double (max a b)"
  by (simp add: max_def)

lemma is_double_min: "is_double a \<Longrightarrow> is_double b \<Longrightarrow> is_double (min a b)"
  by (simp add: min_def)

lemma lit_signs: "0 \<le> lit_0_04" "0 \<le> lit_0_02" "0 \<le> lit_0_005"
  by (simp_all add: lit_0_04_def lit_0_02_def lit_0_005_def fl_nonneg)

lemma scaleStep_double: "is_double (scaleStep z)"
  by (simp add: scaleStep_def js_sub_def is_double_max)

lemma scaleStep_ge: "lit_0_65 \<le> scaleStep z"
  by (simp add: scaleStep_def)

lemma scaleStep_le:
  assumes "is_double z" and "lit_0_65 \<le> z"
  shows "scaleStep z \<le> z"
proof -
  have "fl (z - lit_0_04) \<le> fl z" using lit_signs by (intro fl_mono) simp
  then show ?thesis using assms by (simp add: scaleStep_def js_sub_def is_double_def)
qed

lemma scale_inv: "is_double ((scaleStep ^^ n) 1) \<and> lit_0_65 \<le> (scaleStep ^^ n) 1"
proof (cases n)
  case 0
  then show ?thesis by (simp add: press_literals)
next
  case (Suc m)
  then show ?thesis by (simp add: scaleStep_double scaleStep_ge)
qed

lemma positionStep_double: "is_double (positionStep z)"
  by (simp add: positionStep_def js_sub_def is_double_max is_double_minus)

lemma positionStep_ge: "- lit_0_15 \<le> positionStep z"
  by (simp add: positionStep_def)

lemma positionStep_le:
  assumes "is_double z" and "- lit_0_15 \<le> z"
  shows "positionStep z \<le> z"
proof -
  have "fl (z - lit_0_02) \<le> fl z" using lit_signs by (intro fl_mono) simp
  then show ?thesis using assms by (simp add: positionStep_def js_sub_def is_double_def)
qed

lemma position_inv: "is_double ((positionStep ^^ n) 0) \<and> - lit_0_15 \<le> (positionStep ^^ n) 0"
proof (cases n)
  case 0
  then show ?thesis by (simp add: press_literals)
next
  case (Suc m)
  then show ?thesis by (simp add: positionStep_double positionStep_ge)
qed

lemma rotationStep_double: "is_double (rotationStep z)"
  by (simp add: rotationStep_def js_add_def is_double_min)

lemma rotationStep_le: "rotationStep z \<le> lit_0_03"
  by (simp add: rotationStep_def)

lemma rotationStep_ge:
  assumes "is_double z" and "z \<le> lit_0_03"
  shows "z \<le> rotationStep z"
proof -
  have "fl z \<le> fl (z + lit_0_005)" using lit_signs by (intro fl_mono) simp
  then show ?thesis using assms by (simp add: rotationStep_def js_add_def is_double_def)
qed

lemma rotation_inv: "is_double ((rotationStep ^^ n) 0) \<and> (rotationStep ^^ n) 0 \<le> lit_0_03"
proof (cases n)
  case 0
  then show ?thesis by (simp add: press_literals)
next
  case (Suc m)
  then show ?thesis by (simp add: rotationStep_double rotationStep_le)
qed

lemma pressedPose_funpow:
  "vec_z (scale ((pressedPose ^^ n) g)) = (scaleStep ^^ n) (vec_z (scale g))"
  "vec_z (position ((pressedPose ^^ n) g)) = (positionStep ^^ n) (vec_z (position g))"
  "vec_x (rotation ((pressedPose ^^ n) g)) = (rotationStep ^^ n) (vec_x (rotation g))"
  by (induction n)
    (simp_all add: pressedPose_def scaleStep_def positionStep_def rotationStep_def)

lemma useFrame_funpow_pressed:
  assumes "isPressed s" and "group s = Some g"
  shows "isPressed ((useFrame ^^ n) s) \<and> group ((useFrame ^^ n) s) = Some ((pressedPose ^^ n) g)"
proof (induction n)
  case 0
  show ?case using assms by simp
next
  case (Suc n)
  then show ?case by (simp add: useFrame_def)
qed

section \<open>The idle frames\<close>

lemma ease_eases_toward:
  assumes v: "is_double v" and t: "is_double t" and r: "1 / 16 \<le> r" "r \<le> 1 / 4"
  shows "eases_toward t v (ease t r v)"
proof -
  have r0: "0 \<le> r" using r by simp
  have a: "v \<le> ease t r v \<and> ease t r v \<le> t" if "v \<le> t"
    using ease_between_up[OF v t that r0 r(2)] by simp
  have b: "t \<le> ease t r v \<and> ease t r v \<le> v" if "t \<le> v"
    using ease_between_down[OF v t that r0 r(2)] by simp
  have c: "\<bar>t - ease t r v\<bar> < \<bar>t - v\<bar>" if far: "16 * ulp v \<le> \<bar>t - v\<bar>"
  proof (cases "v \<le> t")
    case True
    then have "v + 16 * ulp v \<le> t" using far by simp
    then have "v < ease t r v" using v r(1) by (intro ease_moves_up)
    then show ?thesis using a[OF True] by simp
  next
    case False
    then have le: "t \<le> v" by simp
    then have "t \<le> v - 16 * ulp v" using far by simp
    then have "ease t r v < v" using v r(1) by (intro ease_moves_down)
    then show ?thesis using b[OF le] by simp
  qed
  show ?thesis unfolding eases_toward_def using a b c by blast
qed

lemma ease_at_target:
  assumes "is_double t"
  shows "ease t r t = t"
  using assms by (simp add: ease_def js_add_def js_sub_def js_mul_def is_double_def)

lemma ease_stalls_below_one:
  "is_double (1 - 1 / 2 ^ 53)" "ease 1 lit_0_1 (1 - 1 / 2 ^ 53) = 1 - 1 / 2 ^ 53"
proof -
  have a: "fl (1 - 1 / 2 ^ 53) = 1 - 1 / 2 ^ 53"
    by (rule fl_eqI[where e = "-1" and n = "9007199254740991"]) simp_all
  show "is_double (1 - 1 / 2 ^ 53)"
    unfolding is_double_def by (rule a)
  have b: "fl (1 - (1 - 1 / 2 ^ 53)) = 1 / 2 ^ 53"
    by (rule fl_eqI[where e = "-53" and n = "4503599627370496"]) simp_all
  have c: "fl (1 / 2 ^ 53 * (3602879701896397 / 2 ^ 55)) = 3602879701896397 / 2 ^ 108"
    by (rule fl_eqI[where e = "-57" and n = "7205759403792794"]) simp_all
  have d: "fl (1 - 1 / 2 ^ 53 + 3602879701896397 / 2 ^ 108) = 1 - 1 / 2 ^ 53"
    by (rule fl_eqI[where e = "-1" and n = "9007199254740991"]) simp_all
  show "ease 1 lit_0_1 (1 - 1 / 2 ^ 53) = 1 - 1 / 2 ^ 53"
    unfolding ease_def js_add_def js_mul_def js_sub_def lit_values b c d by (rule refl)
qed

lemma released_far: "16 * ulp lit_0_65 \<le> \<bar>1 - lit_0_65\<bar>"
proof -
  have "binade (5854679515581645 / 2 ^ 53) = - 1"
    by (rule binade_unique) simp_all
  then show ?thesis
    by (simp add: ulp_def ulp_fmt_def press_literals)
qed

section \<open>The fallback sound: envelope and length\<close>

lemma round_fmt_abs_error:
  assumes "\<bar>x\<bar> < 2 powi e" and "emin < e"
  shows "\<bar>round_fmt p emin x - x\<bar> \<le> 2 powi (e - int p) / 2"
proof (cases "x = 0")
  case True
  then show ?thesis by simp
next
  case False
  have "2 powi binade x < (2::rat) powi e"
    using binade_bounds(1)[OF False] assms(1) by simp
  then have "binade x < e" by (rule p2_less_imp)
  then have "max (binade x) emin - (int p - 1) \<le> e - int p" using assms(2) by simp
  then have "ulp_fmt p emin x \<le> 2 powi (e - int p)"
    unfolding ulp_fmt_def by (rule p2_mono)
  then show ?thesis using round_fmt_error[of p emin x] by simp
qed

lemma fl_abs_error:
  assumes "\<bar>x\<bar> < 2 powi e" and "- 1022 < e"
  shows "\<bar>fl x - x\<bar> \<le> 2 powi (e - 54)"
proof -
  have "\<bar>fl x - x\<bar> \<le> 2 powi (e - int 53) / 2"
    unfolding fl_def using assms by (rule round_fmt_abs_error)
  also have "\<dots> = 2 powi (e - 54)"
    using p2_Suc[of "e - 54"] by simp
  finally show ?thesis .
qed

lemma fround_abs_error:
  assumes "\<bar>x\<bar> < 2 powi e" and "- 126 < e"
  shows "\<bar>fround x - x\<bar> \<le> 2 powi (e - 25)"
proof -
  have "\<bar>fround x - x\<bar> \<le> 2 powi (e - int 24) / 2"
    unfolding fround_def using assms by (rule round_fmt_abs_error)
  also have "\<dots> = 2 powi (e - 25)"
    using p2_Suc[of "e - 25"] by simp
  finally show ?thesis .
qed

lemma fround_mono: "x \<le> y \<Longrightarrow> fround x \<le> fround y"
  by (simp add: fround_def round_fmt_mono)

lemma fround_nonneg: "0 \<le> x \<Longrightarrow> 0 \<le> fround x"
  by (simp add: fround_def round_fmt_nonneg)

lemma fl_half [simp]: "fl (1 / 2) = 1 / 2"
  by (rule fl_fixed[of _ 1 "- 1"]) simp_all

lemma fround_half [simp]: "fround (1 / 2) = 1 / 2"
  unfolding fround_def by (rule round_fmt_fixed[of _ 1 "- 1"]) simp_all

lemma half_gain [simp]: "js_mul 1 lit_0_5 = 1 / 2"
  by (simp add: js_mul_def lit_values)

lemma envelope_attack:
  assumes "of_nat i < js_mul (of_nat len) lit_0_1"
  shows "envelope len i = 1 / 2"
  using assms by (simp add: envelope_def sample_def)

lemma envelope_decay:
  assumes "\<not> of_nat i < js_mul (of_nat len) lit_0_1"
  shows "envelope len i = fround (js_mul (1 / 2) (decayGain len i))"
  using assms by (simp add: envelope_def sample_def decayGain_def)

lemma js_div_bounds:
  assumes "i < len"
  shows "0 \<le> js_div (of_nat i) (of_nat len)" and "js_div (of_nat i) (of_nat len) \<le> 1"
proof -
  have q: "0 \<le> (of_nat i / of_nat len :: rat)" "(of_nat i / of_nat len :: rat) \<le> 1"
    using assms by simp_all
  show "0 \<le> js_div (of_nat i) (of_nat len)"
    unfolding js_div_def using q(1) by (rule fl_nonneg)
  have "fl (of_nat i / of_nat len) \<le> fl 1" using q(2) by (rule fl_mono)
  then show "js_div (of_nat i) (of_nat len) \<le> 1" by (simp add: js_div_def)
qed

lemma decayGain_bounds:
  assumes "i < len"
  shows "0 \<le> decayGain len i" and "decayGain len i \<le> 1"
proof -
  let ?a = "js_div (of_nat i) (of_nat len)"
  have "0 \<le> 1 - ?a" using js_div_bounds(2)[OF assms] by simp
  then show "0 \<le> decayGain len i" unfolding decayGain_def js_sub_def by (rule fl_nonneg)
  have "fl (1 - ?a) \<le> fl 1" using js_div_bounds(1)[OF assms] by (intro fl_mono) simp
  then show "decayGain len i \<le> 1" by (simp add: decayGain_def js_sub_def)
qed

lemma decayGain_antimono:
  assumes "i \<le> j" and "0 < len"
  shows "decayGain len j \<le> decayGain len i"
proof -
  have "(of_nat i / of_nat len :: rat) \<le> of_nat j / of_nat len"
    using assms by (simp add: divide_right_mono)
  then have "js_div (of_nat i) (of_nat len) \<le> js_div (of_nat j) (of_nat len)"
    unfolding js_div_def by (rule fl_mono)
  then show ?thesis
    unfolding decayGain_def js_sub_def by (intro fl_mono) simp
qed

lemma envelope_decay_antimono:
  assumes i: "\<not> of_nat i < js_mul (of_nat len) lit_0_1" and ij: "i \<le> j" and len: "0 < len"
  shows "envelope len j \<le> envelope len i"
proof -
  have "(of_nat i :: rat) \<le> of_nat j" using ij by simp
  then have j: "\<not> of_nat j < js_mul (of_nat len) lit_0_1" using i by simp
  have "js_mul (1 / 2) (decayGain len j) \<le> js_mul (1 / 2) (decayGain len i)"
    unfolding js_mul_def using decayGain_antimono[OF ij len] by (intro fl_mono) simp
  then show ?thesis
    unfolding envelope_decay[OF i] envelope_decay[OF j] by (rule fround_mono)
qed

lemma envelope_decay_close:
  assumes i: "\<not> of_nat i < js_mul (of_nat len) lit_0_1" and il: "i < len"
  shows "\<bar>envelope len i - (1 - of_nat i / of_nat len) / 2\<bar> \<le> 1 / 2 ^ 25 + 1 / 2 ^ 52"
proof -
  define q :: rat where "q = of_nat i / of_nat len"
  define A where "A = fl q"
  define B where "B = fl (1 - A)"
  define C where "C = fl (1 / 2 * B)"
  have q: "0 \<le> q" "q < 1" using il by (simp_all add: q_def)
  have A: "0 \<le> A" "A \<le> 1"
    using js_div_bounds[OF il] by (simp_all add: A_def q_def js_div_def)
  have B: "0 \<le> B" "B \<le> 1"
    using decayGain_bounds[OF il] by (simp_all add: B_def A_def q_def decayGain_def js_sub_def js_div_def)
  have "fl 0 \<le> C" "C \<le> fl (1 / 2)"
    unfolding C_def using B by (intro fl_mono; simp)+
  then have C: "0 \<le> C" "C \<le> 1 / 2" by simp_all
  have eA: "\<bar>A - q\<bar> \<le> 1 / 2 ^ 54"
    using fl_abs_error[of q 0] q by (simp add: A_def)
  have eB: "\<bar>B - (1 - A)\<bar> \<le> 1 / 2 ^ 53"
    using fl_abs_error[of "1 - A" 1] A by (simp add: B_def)
  have eC: "\<bar>C - 1 / 2 * B\<bar> \<le> 1 / 2 ^ 54"
    using fl_abs_error[of "1 / 2 * B" 0] B by (simp add: C_def)
  have eD: "\<bar>fround C - C\<bar> \<le> 1 / 2 ^ 25"
    using fround_abs_error[of C 0] C by simp
  have "envelope len i = fround C"
    by (simp add: envelope_decay[OF i] decayGain_def js_mul_def js_sub_def js_div_def
        C_def B_def A_def q_def)
  moreover have "\<bar>fround C - (1 - q) / 2\<bar> \<le> 1 / 2 ^ 25 + 1 / 2 ^ 52"
    using eA eB eC eD unfolding abs_le_iff by (simp add: diff_divide_distrib)
  ultimately show ?thesis by (simp add: q_def)
qed

lemma envelope_decay_strict:
  assumes i: "\<not> of_nat i < js_mul (of_nat len) lit_0_1" and ij: "i < j" and jl: "j < len"
    and len: "len \<le> 2 ^ 22"
  shows "envelope len j < envelope len i"
proof -
  have "(of_nat i :: rat) \<le> of_nat j" using ij by simp
  then have j: "\<not> of_nat j < js_mul (of_nat len) lit_0_1" using i by simp
  have il: "i < len" using ij jl by simp
  have lpos: "0 < (of_nat len :: rat)" using jl by simp
  have "(of_nat len :: rat) \<le> of_nat (2 ^ 22)" using len by (simp only: of_nat_le_iff)
  then have l2: "(of_nat len :: rat) \<le> 2 ^ 22" by simp
  have "Suc i \<le> j" using ij by simp
  then have "(of_nat (Suc i) :: rat) \<le> of_nat j" by (simp only: of_nat_le_iff)
  then have "(of_nat i :: rat) + 1 \<le> of_nat j" by simp
  then have "(of_nat j - of_nat i :: rat) / of_nat len \<ge> 1 / of_nat len"
    using lpos by (intro divide_right_mono) simp_all
  moreover have "1 / (of_nat len :: rat) \<ge> 1 / 2 ^ 22"
    using lpos l2 by (intro divide_left_mono) simp_all
  ultimately have "(of_nat j - of_nat i :: rat) / of_nat len \<ge> 1 / 2 ^ 22" by linarith
  then have gap: "(of_nat j :: rat) / of_nat len - of_nat i / of_nat len \<ge> 1 / 2 ^ 22"
    by (simp only: diff_divide_distrib)
  define a :: rat where "a = of_nat i / of_nat len"
  define b :: rat where "b = of_nat j / of_nat len"
  have "\<bar>envelope len i - (1 - a) / 2\<bar> \<le> 1 / 2 ^ 25 + 1 / 2 ^ 52"
    "\<bar>envelope len j - (1 - b) / 2\<bar> \<le> 1 / 2 ^ 25 + 1 / 2 ^ 52"
    unfolding a_def b_def by (rule envelope_decay_close[OF i il] envelope_decay_close[OF j jl])+
  moreover have "1 / 2 ^ 22 \<le> b - a" using gap by (simp add: a_def b_def)
  ultimately show ?thesis
    unfolding abs_le_iff by (simp add: diff_divide_distrib)
qed

lemma tenth_error:
  assumes "0 \<le> sampleRate" and "sampleRate \<le> 2 ^ 32"
  shows "0 \<le> js_mul sampleRate lit_0_1"
    and "\<bar>js_mul sampleRate lit_0_1 - sampleRate / 10\<bar> \<le> 1 / 2 ^ 23"
proof -
  define x where "x = sampleRate * lit_0_1"
  define w where "w = sampleRate / (10 * 2 ^ 54)"
  have x: "x = sampleRate / 10 + w"
    by (simp add: x_def w_def lit_values field_simps)
  have w0: "0 \<le> w" using assms(1) by (simp add: w_def)
  have "w \<le> 2 ^ 32 / (10 * 2 ^ 54)"
    unfolding w_def using assms(2) by (intro divide_right_mono) simp_all
  then have w1: "w \<le> 1 / (10 * 2 ^ 22)" by simp
  have x0: "0 \<le> x" using assms(1) w0 by (simp add: x)
  have "sampleRate / 10 \<le> 2 ^ 32 / 10" using assms(2) by simp
  then have "x < 2 ^ 29" using w1 by (simp add: x)
  then have "\<bar>x\<bar> < 2 powi 29" using x0 by simp
  then have "\<bar>fl x - x\<bar> \<le> 2 powi (29 - 54)" by (rule fl_abs_error) simp
  then have e: "\<bar>fl x - x\<bar> \<le> 1 / 2 ^ 25" by simp
  show "0 \<le> js_mul sampleRate lit_0_1"
    unfolding js_mul_def x_def[symmetric] using x0 by (rule fl_nonneg)
  show "\<bar>js_mul sampleRate lit_0_1 - sampleRate / 10\<bar> \<le> 1 / 2 ^ 23"
    unfolding js_mul_def x_def[symmetric] using e w0 w1 unfolding abs_le_iff x by simp
qed

lemma bufferLength_floor:
  assumes "0 \<le> sampleRate" and "sampleRate \<le> 2 ^ 32"
  shows "int (bufferLength sampleRate) = \<lfloor>js_mul sampleRate lit_0_1\<rfloor>"
proof -
  define y where "y = js_mul sampleRate lit_0_1"
  have y0: "0 \<le> y" unfolding y_def using assms by (rule tenth_error)
  have "sampleRate / 10 \<le> 2 ^ 32 / 10" using assms(2) by simp
  then have "y < 2 ^ 32"
    using tenth_error(2)[OF assms] unfolding abs_le_iff y_def by simp
  then have "\<lfloor>y\<rfloor> < 2 ^ 32" by (simp add: floor_less_iff)
  moreover have "0 \<le> \<lfloor>y\<rfloor>" using y0 by simp
  ultimately have "\<lfloor>y\<rfloor> mod 2 ^ 32 = \<lfloor>y\<rfloor>" by simp
  then show ?thesis using y0 by (simp add: bufferLength_def y_def)
qed

lemma bufferLength_bounds:
  assumes "0 \<le> sampleRate" and "sampleRate \<le> 2 ^ 32"
  shows "of_nat (bufferLength sampleRate) \<le> sampleRate / 10 + 1 / 2 ^ 23"
    and "sampleRate / 10 - 1 - 1 / 2 ^ 23 < of_nat (bufferLength sampleRate)"
proof -
  define y where "y = js_mul sampleRate lit_0_1"
  define m :: rat where "m = of_int \<lfloor>y\<rfloor>"
  have "(of_nat (bufferLength sampleRate) :: rat) = of_int (int (bufferLength sampleRate))"
    by simp
  then have n: "of_nat (bufferLength sampleRate) = m"
    unfolding bufferLength_floor[OF assms] by (simp add: m_def y_def)
  have e: "\<bar>y - sampleRate / 10\<bar> \<le> 1 / 2 ^ 23"
    unfolding y_def using assms by (rule tenth_error)
  have fl1: "m \<le> y" "y < m + 1" unfolding m_def by linarith+
  show "of_nat (bufferLength sampleRate) \<le> sampleRate / 10 + 1 / 2 ^ 23"
    using e fl1(1) unfolding n abs_le_iff by simp
  show "sampleRate / 10 - 1 - 1 / 2 ^ 23 < of_nat (bufferLength sampleRate)"
    using e fl1(2) unfolding n abs_le_iff by simp
qed

lemma bufferLength_pos:
  assumes "10 \<le> sampleRate" and "sampleRate \<le> 2 ^ 32"
  shows "0 < bufferLength sampleRate"
proof -
  have s0: "0 \<le> sampleRate" using assms(1) by simp
  have one: "fl (10 * (3602879701896397 / 2 ^ 55)) = 1"
    by (rule fl_eqI[where e = 0 and n = "2 ^ 52"]) simp_all
  have "10 * lit_0_1 \<le> sampleRate * lit_0_1"
    using assms(1) rates(1) by (intro mult_right_mono)
  then have "fl (10 * lit_0_1) \<le> js_mul sampleRate lit_0_1"
    unfolding js_mul_def by (rule fl_mono)
  then have "1 \<le> js_mul sampleRate lit_0_1"
    using one by (simp add: lit_values)
  then have "1 \<le> \<lfloor>js_mul sampleRate lit_0_1\<rfloor>" by simp
  then have "1 \<le> int (bufferLength sampleRate)"
    by (simp only: bufferLength_floor[OF s0 assms(2)])
  then show ?thesis by simp
qed

lemma sample_le_envelope:
  assumes r: "0 \<le> r" "r \<le> 1" and il: "i < len"
  shows "0 \<le> sample len i r" and "sample len i r \<le> envelope len i"
proof -
  have h0: "0 \<le> js_mul r lit_0_5"
    unfolding js_mul_def using r by (intro fl_nonneg) (simp add: lit_values)
  have h1: "js_mul r lit_0_5 \<le> js_mul 1 lit_0_5"
    unfolding js_mul_def using r by (intro fl_mono) (simp add: lit_values)
  have g: "0 \<le> decayGain len i" using il by (rule decayGain_bounds)
  have d0: "0 \<le> js_mul (js_mul r lit_0_5) (decayGain len i)"
    unfolding js_mul_def[of "js_mul r lit_0_5"] using h0 g by (intro fl_nonneg) simp
  have d1: "js_mul (js_mul r lit_0_5) (decayGain len i)
      \<le> js_mul (js_mul 1 lit_0_5) (decayGain len i)"
    unfolding js_mul_def[of "js_mul r lit_0_5"] js_mul_def[of "js_mul 1 lit_0_5"]
    using h1 g by (intro fl_mono mult_right_mono)
  show "0 \<le> sample len i r"
    using h0 d0 by (simp add: sample_def decayGain_def fround_nonneg)
  show "sample len i r \<le> envelope len i"
  proof (cases "of_nat i < js_mul (of_nat len) lit_0_1")
    case True
    have "fround (js_mul r lit_0_5) \<le> fround (js_mul 1 lit_0_5)"
      using h1 by (rule fround_mono)
    then show ?thesis using True by (simp only: envelope_def sample_def if_True)
  next
    case False
    have "fround (js_mul (js_mul r lit_0_5) (decayGain len i))
        \<le> fround (js_mul (js_mul 1 lit_0_5) (decayGain len i))"
      using d1 by (rule fround_mono)
    then show ?thesis using False by (simp only: envelope_def sample_def decayGain_def if_False)
  qed
qed

lemma fallback_then_click:
  assumes "10 \<le> d"
  shows "\<exists>b. sound (run [SoundError random sampleRate, Click [MeshOnClick], Elapse d] (mounted nodes)) = Some b \<and>
     buffer b = Some (FallbackBuffer (bufferLength sampleRate) sampleRate
       (map (\<lambda>i. sample (bufferLength sampleRate) i (random i)) [0..<bufferLength sampleRate])) \<and>
     volume b = lit_0_3 \<and> play_calls b = 1 \<and> isPlaying b"
proof (cases "200 \<le> d")
  case True
  then show ?thesis
    using assms
    by (simp add: mounted_def handleClick_def elapse_def createFallbackSound_def Let_def
        audio_play_def)
next
  case False
  then show ?thesis
    using assms
    by (simp add: mounted_def handleClick_def elapse_def createFallbackSound_def Let_def
        audio_play_def)
qed

lemma cd_quality:
  "js_mul 44100 lit_0_1 = 4410"
  "js_mul 4410 lit_0_1 = 441"
proof -
  show "js_mul 44100 lit_0_1 = 4410"
    unfolding js_mul_def lit_values
    by (rule fl_eqI[where e = 12 and n = "4410 * 2 ^ 40"]) simp_all
  show "js_mul 4410 lit_0_1 = 441"
    unfolding js_mul_def lit_values
    by (rule fl_eqI[where e = 8 and n = "441 * 2 ^ 44"]) simp_all
qed

lemma cd_buffer: "bufferLength 44100 = 4410"
  by (simp add: bufferLength_def cd_quality)

lemma cd_samples:
  "(of_nat 0 :: rat) < js_mul (of_nat 4410) lit_0_1"
  "(of_nat 1 :: rat) < js_mul (of_nat 4410) lit_0_1"
  "\<not> (of_nat 1000 :: rat) < js_mul (of_nat 4410) lit_0_1"
  by (simp_all add: cd_quality)

section \<open>The properties\<close>

text \<open>
  C1. One pointer click can call \<open>handleClick\<close> twice: a click that meets the shadow plane
  before it meets a mesh of the keycap is handed to the handler of the group and then to the
  handler of the mesh. Both calls are made by closures of the same render, for which
  \<open>isPressed\<close> is false, so the second call passes the guard although the first has already
  set the press state. On a newly mounted key such a click calls \<open>onClick\<close> twice and
  schedules two sound timers and two release timers.
\<close>

theorem one_click_activates_twice:
  "\<not> isPressed (mounted cubeModel) \<and>
   pressState (handleClick (mounted cubeModel)) \<and>
   \<not> isPressed (handleClick (mounted cubeModel)) \<and>
   onClick_calls (handleClick (mounted cubeModel)) = 1 \<and>
   onClick_calls (handleClick (handleClick (mounted cubeModel))) = 2 \<and>
   dispatch [GroupOnClick, MeshOnClick] (mounted cubeModel) =
     handleClick (handleClick (mounted cubeModel)) \<and>
   onClick_calls (run [Click [GroupOnClick, MeshOnClick]] (mounted cubeModel)) = 2 \<and>
   timers (run [Click [GroupOnClick, MeshOnClick]] (mounted cubeModel)) =
     [\<lparr>due = 10, action = PlaySound\<rparr>, \<lparr>due = 200, action = Release\<rparr>,
      \<lparr>due = 10, action = PlaySound\<rparr>, \<lparr>due = 200, action = Release\<rparr>]"
  by (simp add: mounted_def cubeModel_def handleClick_def Let_def)

text \<open>
  C6. A call of \<open>handleClick\<close> that passes the guard sets the press state at once, the render
  that follows shows the key pressed, and the call schedules one release timer, due 200 ms
  later. On every run from the mounted state, a click that arrives while the key is idle and
  reaches a handler leaves the key pressed through all events during which less than 200 ms
  pass; the release timers pending in that time are those of its calls of \<open>handleClick\<close>,
  one for each call, all due 200 ms after the click. The passage of time that reaches the
  200 ms leaves the key idle, with no release pending. The press state is left by no other
  step than a passage of time that makes a pending release timer due.
\<close>

theorem press_lasts_200ms:
  "(\<not> isPressed s \<longrightarrow>
      pressState (handleClick s) \<and>
      isPressed (render (handleClick s)) \<and>
      pending_releases (handleClick s) =
        pending_releases s @ [\<lparr>due = clock s + 200, action = Release\<rparr>]) \<and>
   (\<not> isPressed (run es0 (mounted nodes)) \<and> hs \<noteq> [] \<and> elapsed es < 200 \<longrightarrow>
      held (calls hs) (clock (run es0 (mounted nodes)) + 200)
        (run (es0 @ Click hs # es) (mounted nodes))) \<and>
   (\<not> isPressed (run es0 (mounted nodes)) \<and> hs \<noteq> [] \<and> elapsed es < 200 \<and>
    200 \<le> elapsed es + d \<longrightarrow>
      \<not> pressState (run (es0 @ Click hs # es @ [Elapse d]) (mounted nodes)) \<and>
      \<not> isPressed (run (es0 @ Click hs # es @ [Elapse d]) (mounted nodes)) \<and>
      pending_releases (run (es0 @ Click hs # es @ [Elapse d]) (mounted nodes)) = []) \<and>
   (pressState s \<and> \<not> pressState (step e s) \<longrightarrow>
      (\<exists>d. e = Elapse d \<and> (\<exists>r \<in> set (pending_releases s). due r \<le> clock s + d)))"
proof -
  let ?s0 = "run es0 (mounted nodes)"
  have a: "pressState (handleClick s) \<and> isPressed (render (handleClick s)) \<and>
      pending_releases (handleClick s) =
        pending_releases s @ [\<lparr>due = clock s + 200, action = Release\<rparr>]"
    if "\<not> isPressed s"
    using that by (simp add: handleClick_idle)
  have inv: "press_inv ?s0"
    by (intro press_inv_run press_inv_mounted)
  have h: "held (calls hs) (clock ?s0 + 200) (run es (step (Click hs) ?s0))"
    if idle: "\<not> isPressed ?s0" and hs: "hs \<noteq> []" and lt: "elapsed es < 200" for es
  proof -
    have "pending_releases ?s0 = []" using inv idle by (simp add: press_inv_def)
    then have "held (calls hs) (clock ?s0 + 200) (step (Click hs) ?s0)"
      using idle hs by (intro click_held)
    then show ?thesis using lt by (intro held_run) (simp_all add: dispatch_clock)
  qed
  have b: "held (calls hs) (clock ?s0 + 200) (run (es0 @ Click hs # es) (mounted nodes))"
    if "\<not> isPressed ?s0 \<and> hs \<noteq> [] \<and> elapsed es < 200"
    using h[of es] that by (simp add: run_append)
  have c: "\<not> pressState (run (es0 @ Click hs # es @ [Elapse d]) (mounted nodes)) \<and>
      \<not> isPressed (run (es0 @ Click hs # es @ [Elapse d]) (mounted nodes)) \<and>
      pending_releases (run (es0 @ Click hs # es @ [Elapse d]) (mounted nodes)) = []"
    if t: "\<not> isPressed ?s0 \<and> hs \<noteq> [] \<and> elapsed es < 200 \<and> 200 \<le> elapsed es + d"
  proof -
    let ?t = "run es (step (Click hs) ?s0)"
    have g: "held (calls hs) (clock ?s0 + 200) ?t" using h[of es] t by simp
    have le: "clock ?s0 + 200 \<le> clock ?t + d"
      using t by (simp add: run_clock dispatch_clock)
    have "\<not> pressState (step (Elapse d) ?t) \<and> \<not> isPressed (step (Elapse d) ?t) \<and>
        pending_releases (step (Elapse d) ?t) = []"
      using held_release[OF g le] by blast
    then show ?thesis by (simp add: run_append)
  qed
  show ?thesis using a b c leave_pressed by blast
qed

theorem press_lasts_200ms_witness:
  "\<not> isPressed (mounted cubeModel) \<and>
   pressState (handleClick (mounted cubeModel)) \<and>
   isPressed (render (handleClick (mounted cubeModel))) \<and>
   pending_releases (handleClick (mounted cubeModel)) = [\<lparr>due = 200, action = Release\<rparr>] \<and>
   elapsed [Frame, Elapse 150, Click [MeshOnClick], Elapse 49] < 200 \<and>
   held 2 200 (run [Click [GroupOnClick, MeshOnClick], Frame, Elapse 150, Click [MeshOnClick],
                    Elapse 49] (mounted cubeModel)) \<and>
   200 \<le> elapsed [Frame, Elapse 150, Click [MeshOnClick], Elapse 49] + 1 \<and>
   \<not> pressState (run [Click [GroupOnClick, MeshOnClick], Frame, Elapse 150, Click [MeshOnClick],
                       Elapse 49, Elapse 1] (mounted cubeModel)) \<and>
   pressState (step (Click [MeshOnClick]) (mounted cubeModel)) \<and>
   \<not> pressState (step (Elapse 200) (step (Click [MeshOnClick]) (mounted cubeModel))) \<and>
   (\<exists>r \<in> set (pending_releases (step (Click [MeshOnClick]) (mounted cubeModel))).
      due r \<le> clock (step (Click [MeshOnClick]) (mounted cubeModel)) + 200)"
proof -
  let ?m = "mounted cubeModel"
  let ?s1 = "step (Click [MeshOnClick]) ?m"
  let ?hs = "[GroupOnClick, MeshOnClick]"
  let ?es = "[Frame, Elapse 150, Click [MeshOnClick], Elapse 49]"
  note t = press_lasts_200ms [of ?m "[]" cubeModel ?hs ?es 1 "Elapse 200"]
  note u = press_lasts_200ms [of ?s1 "[]" cubeModel ?hs ?es 1 "Elapse 200"]
  have i: "\<not> isPressed ?m" "\<not> isPressed (run [] ?m)" "clock ?m = 0"
    "pending_releases ?m = []" "calls ?hs = 2"
    by (simp_all add: mounted_def pending_releases_def)
  have e: "?hs \<noteq> []" "elapsed ?es < 200" "200 \<le> elapsed ?es + 1"
    by simp_all
  have a: "pressState (handleClick ?m) \<and> isPressed (render (handleClick ?m)) \<and>
      pending_releases (handleClick ?m) =
        pending_releases ?m @ [\<lparr>due = clock ?m + 200, action = Release\<rparr>]"
    using t i(1) by blast
  have b: "held (calls ?hs) (clock (run [] ?m) + 200) (run ([] @ Click ?hs # ?es) ?m)"
    using t i(2) e by blast
  have c: "\<not> pressState (run ([] @ Click ?hs # ?es @ [Elapse 1]) ?m)"
    using t i(2) e by blast
  have p: "pressState ?s1"
    using a by simp
  have q: "\<not> pressState (step (Elapse 200) ?s1)"
    by (simp add: elapse_pressState handleClick_idle handleClick_fields i)
  have d: "\<exists>d. Elapse 200 = Elapse d \<and>
      (\<exists>r \<in> set (pending_releases ?s1). due r \<le> clock ?s1 + d)"
    using u p q by blast
  have d': "\<exists>r \<in> set (pending_releases ?s1). due r \<le> clock ?s1 + 200"
    using d by simp
  have b': "held 2 200 (run (Click ?hs # ?es) ?m)"
    using b by (simp only: run_Nil append_Nil i(3) i(5) add_0)
  have c': "\<not> pressState (run (Click ?hs # ?es @ [Elapse 1]) ?m)"
    using c by (simp only: append_Nil simp_thms)
  have a': "pending_releases (handleClick ?m) = [\<lparr>due = 200, action = Release\<rparr>]"
    using a by (simp only: i(3) i(4) add_0 append_Nil)
  show ?thesis
    using i(1) a a' e b' c' p q d' by (simp only: append_Cons append_Nil simp_thms)
qed

text \<open>
  C5, as stated: a letter surface always resolves to the white look. It does not while the
  bump texture has not loaded, or when its load fails: the materials are customized in the
  callback of the load and nowhere else, so a grey material named \<open>Cube\<close> stays grey. Nor is
  a material of another class than \<^verbatim>\<open>MeshStandardMaterial\<close> touched once the texture has
  loaded.
\<close>

theorem letter_keeps_look_without_texture:
  "isLetterMaterial ''Cube'' \<and>
   isMeshStandardMaterial greyMaterial \<and>
   color greyMaterial = 0x808080 \<and> roughness greyMaterial = 1 \<and>
   configureMaterials carbon False (Some [(''Cube'', greyMaterial)])
     = Some [(''Cube'', greyMaterial)] \<and>
   configureMaterials carbon True (Some [(''Cube'', basicMaterial)])
     = Some [(''Cube'', basicMaterial)] \<and>
   color basicMaterial = 0x808080"
  using isLetterMaterial_Cube
  by (simp add: configureMaterials_def customize_def greyMaterial_def basicMaterial_def
      whiteMaterial_def)

text \<open>
  C5, amended. Once the bump texture of the selected finish has loaded, every entry of the
  material table is customized; before that, and when the load fails, the table is left as
  it is. A material of another class than \<^verbatim>\<open>MeshStandardMaterial\<close> is never changed. A
  standard material whose name is classified as a letter gets white, roughness 0.1,
  metalness 0.2 and no bump map, whatever the finish is. Every other standard material gets
  the colour \<open>0x0a0a0a\<close> and the roughness, metalness, bump scale and tiled bump texture of
  the finish: 0.1, 0.5, 0.001 and 3 by 3 for glossy; 0.4, 0.3, 0.008 and 6 by 6 for carbon;
  0.8, 0.1, 0.002 and 3 by 3 for matte. Two different finishes never give it the same tuple.
\<close>

theorem finishes_distinct_letters_fixed:
  "configureMaterials t True (Some ms) = Some (map (\<lambda>(key, m). (key, customize t key m)) ms) \<and>
   configureMaterials t False (Some ms) = Some ms \<and>
   (\<not> isMeshStandardMaterial other \<longrightarrow> customize t key other = other) \<and>
   (isMeshStandardMaterial m \<and> isLetterMaterial key \<longrightarrow>
      customize t key m =
        m\<lparr>color := 0xffffff, roughness := lit_0_1, metalness := lit_0_2, bumpMap := None\<rparr> \<and>
      customize t key m = customize t' key m) \<and>
   (isMeshStandardMaterial b \<and> \<not> isLetterMaterial name \<longrightarrow>
      customize t name b =
        b\<lparr>color := keycapColor,
          roughness := finish_roughness (finishOf t),
          metalness := finish_metalness (finishOf t),
          bumpMap := Some (loadedBumpMap t),
          bumpScale := finish_bumpScale (finishOf t)\<rparr> \<and>
      finishTuple (customize glossy name b) = (lit_0_1, lit_0_5, lit_0_001, Some (3, 3)) \<and>
      finishTuple (customize carbon name b) = (lit_0_4, lit_0_3, lit_0_008, Some (6, 6)) \<and>
      finishTuple (customize matte name b) = (lit_0_8, lit_0_1, lit_0_002, Some (3, 3))) \<and>
   (isMeshStandardMaterial b \<and> \<not> isLetterMaterial name \<and> t \<noteq> t' \<longrightarrow>
      finishTuple (customize t name b) \<noteq> finishTuple (customize t' name b))"
proof -
  have 1: "configureMaterials t True (Some ms)
      = Some (map (\<lambda>(key, m). (key, customize t key m)) ms)"
    by (simp add: configureMaterials_def)
  have 2: "configureMaterials t False (Some ms) = Some ms"
    by (simp add: configureMaterials_def)
  have 3: "customize t key m = customize t' key m"
    if "isMeshStandardMaterial m" and "isLetterMaterial key"
    using that by (simp add: customize_letter)
  have 4: "customize t name b =
        b\<lparr>color := keycapColor,
          roughness := finish_roughness (finishOf t),
          metalness := finish_metalness (finishOf t),
          bumpMap := Some (loadedBumpMap t),
          bumpScale := finish_bumpScale (finishOf t)\<rparr> \<and>
      finishTuple (customize glossy name b) = (lit_0_1, lit_0_5, lit_0_001, Some (3, 3)) \<and>
      finishTuple (customize carbon name b) = (lit_0_4, lit_0_3, lit_0_008, Some (6, 6)) \<and>
      finishTuple (customize matte name b) = (lit_0_8, lit_0_1, lit_0_002, Some (3, 3))"
    if "isMeshStandardMaterial b \<and> \<not> isLetterMaterial name"
    using that customize_body[of b name t] body_tuple[of b name] by simp
  have 5: "finishTuple (customize t name b) \<noteq> finishTuple (customize t' name b)"
    if "isMeshStandardMaterial b \<and> \<not> isLetterMaterial name \<and> t \<noteq> t'"
    using that body_tuple_distinct[of b name b name t t'] by simp
  have 6: "customize t key m =
        m\<lparr>color := 0xffffff, roughness := lit_0_1, metalness := lit_0_2, bumpMap := None\<rparr> \<and>
      customize t key m = customize t' key m"
    if "isMeshStandardMaterial m \<and> isLetterMaterial key"
    using that 3 customize_letter[of m key t] by simp
  have 7: "customize t key other = other" if "\<not> isMeshStandardMaterial other"
    using that by (rule customize_other_class)
  show ?thesis
    by (intro conjI; (rule 1 2 | (rule impI, erule 4 5 6 7)))
qed

theorem finishes_distinct_letters_fixed_witness:
  "\<not> isMeshStandardMaterial basicMaterial \<and>
   customize carbon ''Cube'' basicMaterial = basicMaterial \<and>
   isMeshStandardMaterial greyMaterial \<and> isLetterMaterial ''Cube'' \<and>
   customize carbon ''Cube'' greyMaterial =
     greyMaterial\<lparr>color := 0xffffff, roughness := lit_0_1, metalness := lit_0_2, bumpMap := None\<rparr> \<and>
   customize carbon ''Cube'' greyMaterial = customize matte ''Cube'' greyMaterial \<and>
   \<not> isLetterMaterial ''Body'' \<and>
   finishTuple (customize carbon ''Body'' greyMaterial) = (lit_0_4, lit_0_3, lit_0_008, Some (6, 6)) \<and>
   color (customize carbon ''Body'' greyMaterial) = keycapColor \<and>
   carbon \<noteq> matte \<and>
   finishTuple (customize carbon ''Body'' greyMaterial)
     \<noteq> finishTuple (customize matte ''Body'' greyMaterial)"
proof -
  have o: "\<not> isMeshStandardMaterial basicMaterial"
    by (simp add: basicMaterial_def)
  have g: "isMeshStandardMaterial greyMaterial"
    by (simp add: greyMaterial_def whiteMaterial_def)
  have d: "carbon \<noteq> matte" by simp
  have c: "color (customize carbon ''Body'' greyMaterial) = keycapColor"
    using finishes_distinct_letters_fixed
      [of carbon "[]" basicMaterial "''Cube''" greyMaterial matte greyMaterial "''Body''"]
      g isLetterMaterial_Body
    by simp
  show ?thesis
    using finishes_distinct_letters_fixed
      [of carbon "[]" basicMaterial "''Cube''" greyMaterial matte greyMaterial "''Body''"]
      o g d c isLetterMaterial_Cube isLetterMaterial_Body
    by blast
qed



text \<open>
  C8. A frame, pressed or idle, leaves \<open>position.x\<close>, \<open>position.y\<close>, \<open>rotation.y\<close>,
  \<open>rotation.z\<close>, \<open>scale.x\<close> and \<open>scale.y\<close> of the keycap as they were; of the shadow it leaves
  \<open>position.x\<close>, \<open>position.y\<close> and the rotation as they were; and it touches neither the
  press state nor the timers, the clock, the sound or the click count.
\<close>

theorem frame_changes_press_axis_only:
  "isPressed (useFrame s) = isPressed s \<and>
   pressState (useFrame s) = pressState s \<and>
   timers (useFrame s) = timers s \<and>
   clock (useFrame s) = clock s \<and>
   sound (useFrame s) = sound s \<and>
   onClick_calls (useFrame s) = onClick_calls s \<and>
   map_option (\<lambda>g. (vec_x (position g), vec_y (position g), vec_y (rotation g), vec_z (rotation g),
                     vec_x (scale g), vec_y (scale g))) (group (useFrame s)) =
   map_option (\<lambda>g. (vec_x (position g), vec_y (position g), vec_y (rotation g), vec_z (rotation g),
                     vec_x (scale g), vec_y (scale g))) (group s) \<and>
   map_option (\<lambda>h. (vec_x (position h), vec_y (position h), rotation h)) (shadowRef (useFrame s)) =
   map_option (\<lambda>h. (vec_x (position h), vec_y (position h), rotation h)) (shadowRef s)"
proof (cases "group s")
  case None
  then show ?thesis by (simp add: useFrame_def)
next
  case (Some g)
  show ?thesis
  proof (cases "shadowRef s")
    case None
    then show ?thesis
      using Some by (simp add: useFrame_def pressedPose_def idlePose_def)
  next
    case (Some h)
    then show ?thesis
      using \<open>group s = Some g\<close>
      by (simp add: useFrame_def pressedPose_def idlePose_def pressedShadow_def idleShadow_def)
  qed
qed

text \<open>
  C10. One pressed frame applied to any pose leaves \<open>scale.z\<close> at least 0.65, \<open>position.z\<close>
  at least -0.15 and \<open>rotation.x\<close> at most 0.03, wherever these values were before.
\<close>

theorem pressed_frame_clamps:
  assumes "group s = Some g" and "isPressed s"
  shows "\<exists>g'. group (useFrame s) = Some g' \<and>
           lit_0_65 \<le> vec_z (scale g') \<and>
           - lit_0_15 \<le> vec_z (position g') \<and>
           vec_x (rotation g') \<le> lit_0_03"
  using assms by (simp add: useFrame_def pressedPose_def)

theorem pressed_frame_clamps_witness:
  "group pastBounds = Some \<lparr>position = \<lparr>vec_x = 0, vec_y = 0, vec_z = - 1\<rparr>,
                             rotation = \<lparr>vec_x = 1, vec_y = 0, vec_z = 0\<rparr>,
                             scale = \<lparr>vec_x = 1, vec_y = 1, vec_z = 1 / 4\<rparr>\<rparr> \<and>
   isPressed pastBounds \<and>
   (\<exists>g'. group (useFrame pastBounds) = Some g' \<and>
      lit_0_65 \<le> vec_z (scale g') \<and>
      - lit_0_15 \<le> vec_z (position g') \<and>
      vec_x (rotation g') \<le> lit_0_03)"
proof -
  have g: "group pastBounds = Some \<lparr>position = \<lparr>vec_x = 0, vec_y = 0, vec_z = - 1\<rparr>,
                             rotation = \<lparr>vec_x = 1, vec_y = 0, vec_z = 0\<rparr>,
                             scale = \<lparr>vec_x = 1, vec_y = 1, vec_z = 1 / 4\<rparr>\<rparr>"
    by (simp add: pastBounds_def)
  have p: "isPressed pastBounds"
    by (simp add: pastBounds_def)
  show ?thesis
    using pressed_frame_clamps [OF g p] g p by simp
qed

text \<open>
  C2. From the rest pose, after any number \<open>n\<close> of frames in the pressed state: each frame
  replaces \<open>scale.z\<close> by the larger of \<open>scale.z - 0.04\<close> and 0.65, so that \<open>scale.z\<close> never
  grows, is never below 0.65, is within \<open>2\<^sup>-\<^sup>5\<^sup>0\<close> of \<open>max (1 - 0.04 n) 0.65\<close> and is 0.65 from the
  ninth frame on; \<open>position.z\<close> is replaced by the larger of \<open>position.z - 0.02\<close> and -0.15,
  never grows, is never below -0.15, is within \<open>2\<^sup>-\<^sup>5\<^sup>0\<close> of \<open>max (- 0.02 n) (- 0.15)\<close> and is
  -0.15 from the eighth frame on; \<open>rotation.x\<close> is replaced by the smaller of
  \<open>rotation.x + 0.005\<close> and 0.03, never shrinks, is never above 0.03, is within \<open>2\<^sup>-\<^sup>5\<^sup>0\<close> of
  \<open>min (0.005 n) 0.03\<close> and is 0.03 from the sixth frame on.
\<close>

theorem pressed_frames_from_rest:
  assumes "isPressed s" and "group s = Some g0"
    and "vec_z (scale g0) = 1" and "vec_z (position g0) = 0" and "vec_x (rotation g0) = 0"
  shows "\<exists>g g'. group ((useFrame ^^ n) s) = Some g \<and> group ((useFrame ^^ Suc n) s) = Some g' \<and>
     vec_z (scale g') = max (js_sub (vec_z (scale g)) lit_0_04) lit_0_65 \<and>
     vec_z (scale g') \<le> vec_z (scale g) \<and>
     lit_0_65 \<le> vec_z (scale g) \<and>
     \<bar>vec_z (scale g) - max (1 - 4 / 100 * of_nat n) (65 / 100)\<bar> \<le> 1 / 2 ^ 50 \<and>
     (9 \<le> n \<longrightarrow> vec_z (scale g) = lit_0_65) \<and>
     vec_z (position g') = max (js_sub (vec_z (position g)) lit_0_02) (- lit_0_15) \<and>
     vec_z (position g') \<le> vec_z (position g) \<and>
     - lit_0_15 \<le> vec_z (position g) \<and>
     \<bar>vec_z (position g) - max (- (2 / 100 * of_nat n)) (- (15 / 100))\<bar> \<le> 1 / 2 ^ 50 \<and>
     (8 \<le> n \<longrightarrow> vec_z (position g) = - lit_0_15) \<and>
     vec_x (rotation g') = min (js_add (vec_x (rotation g)) lit_0_005) lit_0_03 \<and>
     vec_x (rotation g) \<le> vec_x (rotation g') \<and>
     vec_x (rotation g) \<le> lit_0_03 \<and>
     \<bar>vec_x (rotation g) - min (5 / 1000 * of_nat n) (3 / 100)\<bar> \<le> 1 / 2 ^ 50 \<and>
     (6 \<le> n \<longrightarrow> vec_x (rotation g) = lit_0_03)"
proof -
  let ?g = "(pressedPose ^^ n) g0"
  let ?g' = "(pressedPose ^^ Suc n) g0"
  note r = assms(3-5)
  have sc: "vec_z (scale ?g) = (scaleStep ^^ n) 1"
    by (simp only: pressedPose_funpow r)
  have sc': "vec_z (scale ?g') = scaleStep ((scaleStep ^^ n) 1)"
    using pressedPose_funpow(1)[of "Suc n" g0] r by simp
  have po: "vec_z (position ?g) = (positionStep ^^ n) 0"
    by (simp only: pressedPose_funpow r)
  have po': "vec_z (position ?g') = positionStep ((positionStep ^^ n) 0)"
    using pressedPose_funpow(2)[of "Suc n" g0] r by simp
  have ro: "vec_x (rotation ?g) = (rotationStep ^^ n) 0"
    by (simp only: pressedPose_funpow r)
  have ro': "vec_x (rotation ?g') = rotationStep ((rotationStep ^^ n) 0)"
    using pressedPose_funpow(3)[of "Suc n" g0] r by simp
  have g: "group ((useFrame ^^ n) s) = Some ?g" "group ((useFrame ^^ Suc n) s) = Some ?g'"
    using useFrame_funpow_pressed[OF assms(1,2)] by blast+
  have 1: "vec_z (scale ?g') = max (js_sub (vec_z (scale ?g)) lit_0_04) lit_0_65"
    by (simp only: sc sc' scaleStep_def)
  have 2: "vec_z (scale ?g') \<le> vec_z (scale ?g)"
    unfolding sc sc' using scale_inv[of n] by (intro scaleStep_le) simp_all
  have 3: "lit_0_65 \<le> vec_z (scale ?g)"
    unfolding sc using scale_inv[of n] by simp
  have 4: "\<bar>vec_z (scale ?g) - max (1 - 4 / 100 * of_nat n) (65 / 100)\<bar> \<le> 1 / 2 ^ 50"
    unfolding sc by (rule scale_ramp)
  have 5: "9 \<le> n \<longrightarrow> vec_z (scale ?g) = lit_0_65"
    unfolding sc using scale_floor_reached by blast
  have 6: "vec_z (position ?g') = max (js_sub (vec_z (position ?g)) lit_0_02) (- lit_0_15)"
    by (simp only: po po' positionStep_def)
  have 7: "vec_z (position ?g') \<le> vec_z (position ?g)"
    unfolding po po' using position_inv[of n] by (intro positionStep_le) simp_all
  have 8: "- lit_0_15 \<le> vec_z (position ?g)"
    unfolding po using position_inv[of n] by simp
  have 9: "\<bar>vec_z (position ?g) - max (- (2 / 100 * of_nat n)) (- (15 / 100))\<bar> \<le> 1 / 2 ^ 50"
    unfolding po by (rule position_ramp)
  have 10: "8 \<le> n \<longrightarrow> vec_z (position ?g) = - lit_0_15"
    unfolding po using position_floor_reached by blast
  have 11: "vec_x (rotation ?g') = min (js_add (vec_x (rotation ?g)) lit_0_005) lit_0_03"
    by (simp only: ro ro' rotationStep_def)
  have 12: "vec_x (rotation ?g) \<le> vec_x (rotation ?g')"
    unfolding ro ro' using rotation_inv[of n] by (intro rotationStep_ge) simp_all
  have 13: "vec_x (rotation ?g) \<le> lit_0_03"
    unfolding ro using rotation_inv[of n] by simp
  have 14: "\<bar>vec_x (rotation ?g) - min (5 / 1000 * of_nat n) (3 / 100)\<bar> \<le> 1 / 2 ^ 50"
    unfolding ro by (rule rotation_ramp)
  have 15: "6 \<le> n \<longrightarrow> vec_x (rotation ?g) = lit_0_03"
    unfolding ro using rotation_ceiling_reached by blast
  show ?thesis
    unfolding g using 1 2 3 4 5 6 7 8 9 10 11 12 13 14 15 by blast
qed

theorem pressed_frames_from_rest_witness:
  "isPressed (step (Click [MeshOnClick]) (mounted cubeModel)) \<and>
   group (step (Click [MeshOnClick]) (mounted cubeModel)) = Some restGroup \<and>
   vec_z (scale restGroup) = 1 \<and> vec_z (position restGroup) = 0 \<and>
   vec_x (rotation restGroup) = 0 \<and>
   (\<exists>g. group ((useFrame ^^ 9) (step (Click [MeshOnClick]) (mounted cubeModel))) = Some g \<and>
      vec_z (scale g) = lit_0_65 \<and> vec_z (position g) = - lit_0_15 \<and>
      vec_x (rotation g) = lit_0_03)"
proof -
  have a: "isPressed (step (Click [MeshOnClick]) (mounted cubeModel))"
    by (simp add: handleClick_def mounted_def Let_def)
  have b: "group (step (Click [MeshOnClick]) (mounted cubeModel)) = Some restGroup"
    by (simp add: handleClick_def mounted_def cubeModel_def Let_def)
  have r: "vec_z (scale restGroup) = 1" "vec_z (position restGroup) = 0"
    "vec_x (rotation restGroup) = 0"
    by (simp_all add: restGroup_def)
  show ?thesis
    using pressed_frames_from_rest [OF a b r, of 9] a b r by auto
qed

text \<open>
  C9. In the idle state, when \<open>position.z\<close> and \<open>rotation.x\<close> of the keycap are 0, its
  \<open>scale.z\<close> is 1, the shadow's \<open>scale.x\<close> and \<open>scale.y\<close> are 1, its \<open>position.z\<close> is 0 and its
  opacity is 0.4, a frame leaves the whole state as it is.
\<close>

theorem rest_pose_fixed:
  assumes "\<not> isPressed s" and "group s = Some g" and "shadowRef s = Some h"
    and "vec_z (position g) = 0" and "vec_x (rotation g) = 0" and "vec_z (scale g) = 1"
    and "vec_x (scale h) = 1" and "vec_y (scale h) = 1" and "vec_z (position h) = 0"
    and "opacity h = lit_0_4"
  shows "useFrame s = s"
proof -
  have e: "ease 1 lit_0_1 1 = 1" "ease 0 lit_0_12 0 = 0" "ease 0 lit_0_15 0 = 0"
    "ease 0 lit_0_1 0 = 0" "ease lit_0_4 lit_0_1 lit_0_4 = lit_0_4"
    by (simp_all add: ease_at_target)
  have g: "idlePose g = g"
    using assms(4-6) e by (simp add: idlePose_def)
  have h: "idleShadow h = h"
    using assms(7-10) e by (simp add: idleShadow_def)
  show ?thesis
    using assms(1-3) g h by (simp add: useFrame_def)
qed

theorem rest_pose_fixed_witness:
  "\<not> isPressed (mounted (Some [])) \<and>
   group (mounted (Some [])) = Some restGroup \<and>
   shadowRef (mounted (Some [])) = Some restShadow \<and>
   vec_z (position restGroup) = 0 \<and> vec_x (rotation restGroup) = 0 \<and>
   vec_z (scale restGroup) = 1 \<and>
   vec_x (scale restShadow) = 1 \<and> vec_y (scale restShadow) = 1 \<and>
   vec_z (position restShadow) = 0 \<and> opacity restShadow = lit_0_4 \<and>
   useFrame (mounted (Some [])) = mounted (Some [])"
proof -
  have a: "\<not> isPressed (mounted (Some []))" "group (mounted (Some [])) = Some restGroup"
    "shadowRef (mounted (Some [])) = Some restShadow"
    by (simp_all add: mounted_def)
  have b: "vec_z (position restGroup) = 0" "vec_x (rotation restGroup) = 0"
    "vec_z (scale restGroup) = 1"
    by (simp_all add: restGroup_def)
  have c: "vec_x (scale restShadow) = 1" "vec_y (scale restShadow) = 1"
    "vec_z (position restShadow) = 0" "opacity restShadow = lit_0_4"
    by (simp_all add: restShadow_def)
  show ?thesis
    using rest_pose_fixed [OF a b c] a b c by simp
qed

text \<open>
  C3, as stated: in every idle frame the distance of each eased quantity to its target
  strictly decreases. It does not at the rest pose, which is the pose of a newly mounted
  key: there the distance of \<open>scale.z\<close> to 1 is 0 before the frame and after it.
\<close>

theorem idle_distance_counterexample:
  "\<not> isPressed (mounted (Some [])) \<and>
   group (mounted (Some [])) = Some restGroup \<and>
   group (useFrame (mounted (Some []))) = Some restGroup \<and>
   \<not> \<bar>1 - vec_z (scale restGroup)\<bar> < \<bar>1 - vec_z (scale restGroup)\<bar>"
proof -
  have "idlePose restGroup = restGroup"
    by (simp add: idlePose_def restGroup_def ease_at_target)
  then show ?thesis by (simp add: mounted_def useFrame_def)
qed

text \<open>
  C3, amended. An idle frame replaces each eased quantity \<open>v\<close> by
  \<open>v + (target - v) * rate\<close>, computed in binary64. For every binary64 value \<open>v\<close> the new value
  lies between \<open>v\<close> and the target, both included: the sign of \<open>target - v\<close> never flips and
  the distance to the target never grows. The distance strictly decreases whenever \<open>v\<close> is
  at least 16 ulp of \<open>v\<close> away from the target. (Nearer than that the value can stall, as
  \<open>ease_stalls_below_one\<close> shows, and at the target it stays.)
\<close>

theorem idle_frame_eases:
  assumes "\<not> isPressed s" and "group s = Some g" and "shadowRef s = Some h"
    and "is_double (vec_z (scale g))" and "is_double (vec_z (position g))"
    and "is_double (vec_x (rotation g))"
    and "is_double (vec_x (scale h))" and "is_double (vec_y (scale h))"
    and "is_double (vec_z (position h))" and "is_double (opacity h)"
  shows "\<exists>g' h'. group (useFrame s) = Some g' \<and> shadowRef (useFrame s) = Some h' \<and>
     vec_z (scale g') = ease 1 lit_0_1 (vec_z (scale g)) \<and>
     vec_z (position g') = ease 0 lit_0_12 (vec_z (position g)) \<and>
     vec_x (rotation g') = ease 0 lit_0_15 (vec_x (rotation g)) \<and>
     vec_x (scale h') = ease 1 lit_0_1 (vec_x (scale h)) \<and>
     vec_y (scale h') = ease 1 lit_0_1 (vec_y (scale h)) \<and>
     vec_z (position h') = ease 0 lit_0_1 (vec_z (position h)) \<and>
     opacity h' = ease lit_0_4 lit_0_1 (opacity h) \<and>
     eases_toward 1 (vec_z (scale g)) (vec_z (scale g')) \<and>
     eases_toward 0 (vec_z (position g)) (vec_z (position g')) \<and>
     eases_toward 0 (vec_x (rotation g)) (vec_x (rotation g')) \<and>
     eases_toward 1 (vec_x (scale h)) (vec_x (scale h')) \<and>
     eases_toward 1 (vec_y (scale h)) (vec_y (scale h')) \<and>
     eases_toward 0 (vec_z (position h)) (vec_z (position h')) \<and>
     eases_toward lit_0_4 (opacity h) (opacity h')"
proof -
  have f: "group (useFrame s) = Some (idlePose g)" "shadowRef (useFrame s) = Some (idleShadow h)"
    using assms(1-3) by (simp_all add: useFrame_def)
  have 1: "eases_toward 1 (vec_z (scale g)) (ease 1 lit_0_1 (vec_z (scale g)))"
    using assms(4) rates by (intro ease_eases_toward) simp_all
  have 2: "eases_toward 0 (vec_z (position g)) (ease 0 lit_0_12 (vec_z (position g)))"
    using assms(5) rates by (intro ease_eases_toward) simp_all
  have 3: "eases_toward 0 (vec_x (rotation g)) (ease 0 lit_0_15 (vec_x (rotation g)))"
    using assms(6) rates by (intro ease_eases_toward) simp_all
  have 4: "eases_toward 1 (vec_x (scale h)) (ease 1 lit_0_1 (vec_x (scale h)))"
    using assms(7) rates by (intro ease_eases_toward) simp_all
  have 5: "eases_toward 1 (vec_y (scale h)) (ease 1 lit_0_1 (vec_y (scale h)))"
    using assms(8) rates by (intro ease_eases_toward) simp_all
  have 6: "eases_toward 0 (vec_z (position h)) (ease 0 lit_0_1 (vec_z (position h)))"
    using assms(9) rates by (intro ease_eases_toward) simp_all
  have 7: "eases_toward lit_0_4 (opacity h) (ease lit_0_4 lit_0_1 (opacity h))"
    using assms(10) rates by (intro ease_eases_toward) simp_all
  show ?thesis
    unfolding f using 1 2 3 4 5 6 7 by (simp add: idlePose_def idleShadow_def)
qed

theorem idle_frame_eases_witness:
  "\<not> isPressed released \<and>
   (\<exists>g h. group released = Some g \<and> shadowRef released = Some h \<and>
      is_double (vec_z (scale g)) \<and> is_double (vec_z (position g)) \<and>
      is_double (vec_x (rotation g)) \<and> is_double (vec_x (scale h)) \<and>
      is_double (vec_y (scale h)) \<and> is_double (vec_z (position h)) \<and>
      is_double (opacity h) \<and> vec_z (scale g) = lit_0_65 \<and>
      16 * ulp (vec_z (scale g)) \<le> \<bar>1 - vec_z (scale g)\<bar> \<and>
      (\<exists>g'. group (useFrame released) = Some g' \<and>
         \<bar>1 - vec_z (scale g')\<bar> < \<bar>1 - vec_z (scale g)\<bar> \<and>
         vec_z (scale g) \<le> vec_z (scale g') \<and> vec_z (scale g') \<le> 1))"
proof -
  let ?g = "\<lparr>position = \<lparr>vec_x = 0, vec_y = lit_0_2, vec_z = - lit_0_15\<rparr>,
             rotation = \<lparr>vec_x = lit_0_03, vec_y = 0, vec_z = 0\<rparr>,
             scale = \<lparr>vec_x = 1, vec_y = 1, vec_z = lit_0_65\<rparr>\<rparr>"
  let ?h = "pressedShadow restShadow"
  have a: "\<not> isPressed released" "group released = Some ?g" "shadowRef released = Some ?h"
    by (simp_all add: released_def)
  have d: "is_double (vec_z (scale ?g))" "is_double (vec_z (position ?g))"
    "is_double (vec_x (rotation ?g))" "is_double (vec_x (scale ?h))"
    "is_double (vec_y (scale ?h))" "is_double (vec_z (position ?h))" "is_double (opacity ?h)"
    by (simp_all add: pressedShadow_def is_double_minus lit_0_9_def lit_0_6_def)
  have le: "lit_0_65 \<le> 1" by (simp add: press_literals)
  have z: "vec_z (scale ?g) = lit_0_65" by simp
  obtain g' where g': "group (useFrame released) = Some g'"
    and e: "eases_toward 1 (vec_z (scale ?g)) (vec_z (scale g'))"
    using idle_frame_eases [OF a d] by blast
  have "\<bar>1 - vec_z (scale g')\<bar> < \<bar>1 - lit_0_65\<bar>"
    "lit_0_65 \<le> vec_z (scale g')" "vec_z (scale g') \<le> 1"
    using e released_far le unfolding eases_toward_def z by blast+
  then have "\<exists>g'. group (useFrame released) = Some g' \<and>
         \<bar>1 - vec_z (scale g')\<bar> < \<bar>1 - vec_z (scale ?g)\<bar> \<and>
         vec_z (scale ?g) \<le> vec_z (scale g') \<and> vec_z (scale g') \<le> 1"
    using g' unfolding z by blast
  moreover have "16 * ulp (vec_z (scale ?g)) \<le> \<bar>1 - vec_z (scale ?g)\<bar>"
    unfolding z by (rule released_far)
  ultimately show ?thesis
    using a d z by blast
qed

text \<open>
  C4. The envelope of the fallback sound does not rise over the first tenth of the samples.
  The branch for these samples, which the source calls the attack, stores the random number
  times 0.5, with no factor that grows with the index; the branch for the other samples
  does apply its ramp. At 44100 Hz the buffer has 4410 samples, samples 0 and 1 are both in
  the first tenth, and the envelope is 0.5 at both.
\<close>

theorem attack_envelope_is_flat:
  "bufferLength 44100 = 4410 \<and>
   (of_nat 0 :: rat) < js_mul (of_nat 4410) lit_0_1 \<and>
   (of_nat 1 :: rat) < js_mul (of_nat 4410) lit_0_1 \<and>
   envelope 4410 0 = 1 / 2 \<and>
   envelope 4410 1 = 1 / 2 \<and>
   \<not> envelope 4410 0 < envelope 4410 1"
  using cd_samples cd_buffer by (simp add: envelope_attack)

text \<open>
  The other parts of the fallback sound. When the sound fails to load, the fallback buffer
  has \<open>\<lfloor>sampleRate * 0.1\<rfloor>\<close> samples, within a sample of 100 ms, each sample computed from
  the random number of its iteration; the volume is 0.3, below the 0.7 of the loaded sound.
  The amplitude envelope is 0.5 at every sample \<open>i < length * 0.1\<close>; over the remaining
  samples it is within \<open>2\<^sup>-\<^sup>2\<^sup>5 + 2\<^sup>-\<^sup>5\<^sup>2\<close> of \<open>0.5 * (1 - i / length)\<close>, it never increases, and it
  strictly decreases from sample to sample in buffers of at most \<open>2\<^sup>2\<^sup>2\<close> samples. Every
  sample is between 0 and the envelope. A click after the failed load plays the fallback
  buffer once 10 ms have passed.
\<close>

lemma fallback_sound:
  assumes "10 \<le> sampleRate" and "sampleRate \<le> 2 ^ 32"
  shows "(\<exists>data. buffer (createFallbackSound random sampleRate a) =
          Some (FallbackBuffer (bufferLength sampleRate) sampleRate data) \<and>
        length data = bufferLength sampleRate \<and>
        (\<forall>k < bufferLength sampleRate. data ! k = sample (bufferLength sampleRate) k (random k))) \<and>
     volume (createFallbackSound random sampleRate a) = lit_0_3 \<and>
     lit_0_3 < lit_0_7 \<and>
     0 < bufferLength sampleRate \<and>
     \<bar>of_nat (bufferLength sampleRate) - sampleRate / 10\<bar> < 1 + 1 / 2 ^ 23 \<and>
     (of_nat i < js_mul (of_nat len) lit_0_1 \<longrightarrow> envelope len i = 1 / 2) \<and>
     (\<not> of_nat i < js_mul (of_nat len) lit_0_1 \<and> i \<le> j \<and> j < len \<longrightarrow>
        envelope len j \<le> envelope len i \<and>
        \<bar>envelope len i - (1 - of_nat i / of_nat len) / 2\<bar> \<le> 1 / 2 ^ 25 + 1 / 2 ^ 52) \<and>
     (\<not> of_nat i < js_mul (of_nat len) lit_0_1 \<and> i < j \<and> j < len \<and> len \<le> 2 ^ 22 \<longrightarrow>
        envelope len j < envelope len i) \<and>
     (0 \<le> r \<and> r \<le> 1 \<and> i < len \<longrightarrow> 0 \<le> sample len i r \<and> sample len i r \<le> envelope len i) \<and>
     (10 \<le> d \<longrightarrow>
        (\<exists>b. sound (run [SoundError random sampleRate, Click [MeshOnClick], Elapse d] (mounted nodes)) = Some b \<and>
           buffer b = buffer (createFallbackSound random sampleRate a) \<and>
           volume b = lit_0_3 \<and> play_calls b = 1))"
proof -
  have 1: "\<exists>data. buffer (createFallbackSound random sampleRate a) =
          Some (FallbackBuffer (bufferLength sampleRate) sampleRate data) \<and>
        length data = bufferLength sampleRate \<and>
        (\<forall>k < bufferLength sampleRate. data ! k = sample (bufferLength sampleRate) k (random k))"
    by (simp add: createFallbackSound_def Let_def)
  have 0: "volume (createFallbackSound random sampleRate a) = lit_0_3"
    by (simp add: createFallbackSound_def Let_def)
  have 2: "\<bar>of_nat (bufferLength sampleRate) - sampleRate / 10\<bar> < 1 + 1 / 2 ^ 23"
    using bufferLength_bounds[of sampleRate] assms unfolding abs_less_iff by simp
  have 8: "0 < bufferLength sampleRate"
    using assms by (rule bufferLength_pos)
  have 3: "envelope len j \<le> envelope len i \<and>
        \<bar>envelope len i - (1 - of_nat i / of_nat len) / 2\<bar> \<le> 1 / 2 ^ 25 + 1 / 2 ^ 52"
    if "\<not> of_nat i < js_mul (of_nat len) lit_0_1 \<and> i \<le> j \<and> j < len"
    using that envelope_decay_antimono[of i len j] envelope_decay_close[of i len] by simp
  have 4: "envelope len j < envelope len i"
    if "\<not> of_nat i < js_mul (of_nat len) lit_0_1 \<and> i < j \<and> j < len \<and> len \<le> 2 ^ 22"
    using that envelope_decay_strict[of i len j] by simp
  have 5: "0 \<le> sample len i r \<and> sample len i r \<le> envelope len i"
    if "0 \<le> r \<and> r \<le> 1 \<and> i < len"
    using that sample_le_envelope[of r i len] by simp
  have 6: "\<exists>b. sound (run [SoundError random sampleRate, Click [MeshOnClick], Elapse d] (mounted nodes)) = Some b \<and>
           buffer b = buffer (createFallbackSound random sampleRate a) \<and>
           volume b = lit_0_3 \<and> play_calls b = 1"
    if "10 \<le> d"
    using fallback_then_click[OF that, of random sampleRate nodes]
    by (auto simp add: createFallbackSound_def Let_def)
  have 7: "envelope len i = 1 / 2" if "of_nat i < js_mul (of_nat len) lit_0_1"
    using that by (rule envelope_attack)
  show ?thesis
    by (intro conjI; (rule 0 1 2 8 volumes | (rule impI, erule 3 4 5 6 7)))
qed

lemma fallback_sound_at_44100:
  "(10 :: rat) \<le> 44100 \<and> (44100 :: rat) \<le> 2 ^ 32 \<and>
   bufferLength 44100 = 4410 \<and>
   volume (createFallbackSound (\<lambda>i. 1 / 2) 44100 newAudio) = lit_0_3 \<and>
   (of_nat 0 :: rat) < js_mul (of_nat 4410) lit_0_1 \<and> envelope 4410 0 = 1 / 2 \<and>
   \<not> (of_nat 1000 :: rat) < js_mul (of_nat 4410) lit_0_1 \<and>
   (1000 :: nat) < 1001 \<and> (1001 :: nat) < 4410 \<and> (4410 :: nat) \<le> 2 ^ 22 \<and>
   envelope 4410 1001 < envelope 4410 1000 \<and>
   (0 :: rat) \<le> 1 / 2 \<and> (1 / 2 :: rat) \<le> 1 \<and>
   sample 4410 1000 (1 / 2) \<le> envelope 4410 1000 \<and>
   (10 :: nat) \<le> 10 \<and>
   (\<exists>b. sound (run [SoundError (\<lambda>i. 1 / 2) 44100, Click [MeshOnClick], Elapse 10] (mounted cubeModel)) = Some b \<and>
      play_calls b = 1 \<and> volume b = lit_0_3)"
proof -
  have s: "(10 :: rat) \<le> 44100" "(44100 :: rat) \<le> 2 ^ 32" by simp_all
  have v: "volume (createFallbackSound (\<lambda>i. 1 / 2) 44100 newAudio) = lit_0_3"
    using fallback_sound [OF s, of "\<lambda>i. 1 / 2" newAudio 0 4410 1 "1 / 2" 10 cubeModel]
    by blast
  have t: "envelope 4410 0 = 1 / 2 \<and>
      (\<exists>b. sound (run [SoundError (\<lambda>i. 1 / 2) 44100, Click [MeshOnClick], Elapse 10] (mounted cubeModel)) = Some b \<and>
         play_calls b = 1 \<and> volume b = lit_0_3)"
    using fallback_sound [OF s, of "\<lambda>i. 1 / 2" newAudio 0 4410 1 "1 / 2" 10 cubeModel] cd_samples
    by blast
  have u: "envelope 4410 1001 < envelope 4410 1000 \<and>
      sample 4410 1000 (1 / 2) \<le> envelope 4410 1000"
  proof -
    have c: "(1000 :: nat) < 1001" "(1001 :: nat) < 4410" "(4410 :: nat) \<le> 2 ^ 22"
      "(0 :: rat) \<le> 1 / 2" "(1 / 2 :: rat) \<le> 1" "(1000 :: nat) < 4410"
      by simp_all
    show ?thesis
      using fallback_sound [OF s, of "\<lambda>i. 1 / 2" newAudio 1000 4410 1001 "1 / 2" 10 cubeModel]
        cd_samples c
      by blast
  qed
  have c: "(1000 :: nat) < 1001" "(1001 :: nat) < 4410" "(4410 :: nat) \<le> 2 ^ 22"
    "(0 :: rat) \<le> 1 / 2" "(1 / 2 :: rat) \<le> 1" "(10 :: nat) \<le> 10"
    by simp_all
  show ?thesis using s v t u cd_samples cd_buffer c by blast
qed

end
